theory Spec2Isabelle
  imports Complex_Main "HOL-Library.Monad_Syntax"
begin

section \<open>The solver of src/solver.cpp\<close>

text \<open>
  The source solves a dense system \<open>A x = b\<close> of fixed dimension \<open>N = 10\<close> by Gaussian
  elimination with partial pivoting, followed by back substitution, on two C arrays of
  \<open>double\<close> that it overwrites in place.

  \<^item> A \<open>double\<close> is a finite number, an infinity or a NaN. Every operation on finite
    numbers rounds its exact result to the nearest binary64 number (ties to even,
    gradual underflow) and overflows to an infinity; on infinities and NaN it follows
    IEEE 754. Each operation of the source is rounded on its own: the product and the
    difference of lines 49 and 53 are two operations. The two zeros are one value:
    they compare equal, and the solver never divides by zero.
  \<^item> \<open>double A[N][N]\<close> is a list of rows and \<open>double b[N]\<close> a list; every read and write
    goes through an accessor that checks the index against \<open>N\<close>, so that an access
    outside the arrays is a fault.
  \<^item> A run is a value of type \<open>option\<close>: \<open>None\<close> is a fault (an index out of bounds or a
    zero divisor), \<open>Some\<close> carries the boolean the function returns and the contents the
    two arrays are left with.
  \<^item> The indices of the source are \<open>int\<close>s that stay between \<open>0\<close> and \<open>N\<close>, with the
    single exception of the \<open>-1\<close> that ends the descending loop of line 60; they are
    modelled as \<^typ>\<open>nat\<close>, and that loop counts \<open>i + 1\<close>.
\<close>

subsection \<open>Double precision numbers\<close>

datatype double = Finite real | PInf | NInf | NaN

text \<open>The nearest integer, the even one of the two when they are equally near.\<close>

definition round_even :: "real \<Rightarrow> int" where
  "round_even q =
     (let f = \<lfloor>q\<rfloor>
      in if q - of_int f < 1 / 2 then f
         else if 1 / 2 < q - of_int f then f + 1
         else if even f then f else f + 1)"

text \<open>
  The binary exponent of a number other than zero, not below that of the subnormal
  numbers, and the rounding of a real number to binary64: to a multiple of the unit in
  the last of the 53 places, or to an infinity when that multiple is out of range.
\<close>

definition exponent :: "real \<Rightarrow> int" where
  "exponent x = max \<lfloor>log 2 \<bar>x\<bar>\<rfloor> (- 1022)"

definition rnd :: "real \<Rightarrow> double" where
  "rnd x =
     (if x = 0 then Finite 0
      else let u = 2 powi (exponent x - 52);
               y = of_int (round_even (x / u)) * u
           in if 2 ^ 1024 \<le> \<bar>y\<bar> then (if 0 < x then PInf else NInf) else Finite y)"

text \<open>\<open>std::abs\<close>, and the comparisons \<open><\<close> and \<open><=\<close>, false as soon as one side is a NaN.\<close>

fun dabs :: "double \<Rightarrow> double" where
  "dabs (Finite x) = Finite \<bar>x\<bar>"
| "dabs PInf = PInf"
| "dabs NInf = PInf"
| "dabs NaN = NaN"

fun dless :: "double \<Rightarrow> double \<Rightarrow> bool" where
  "dless (Finite x) (Finite y) \<longleftrightarrow> x < y"
| "dless (Finite x) PInf \<longleftrightarrow> True"
| "dless NInf (Finite y) \<longleftrightarrow> True"
| "dless NInf PInf \<longleftrightarrow> True"
| "dless _ _ \<longleftrightarrow> False"

fun dle :: "double \<Rightarrow> double \<Rightarrow> bool" where
  "dle (Finite x) (Finite y) \<longleftrightarrow> x \<le> y"
| "dle (Finite x) PInf \<longleftrightarrow> True"
| "dle NInf (Finite y) \<longleftrightarrow> True"
| "dle NInf NInf \<longleftrightarrow> True"
| "dle NInf PInf \<longleftrightarrow> True"
| "dle PInf PInf \<longleftrightarrow> True"
| "dle _ _ \<longleftrightarrow> False"

text \<open>\<open>x - y\<close>, \<open>x * y\<close> and \<open>x / y\<close> (the last for a divisor other than zero, see \<open>fdiv\<close>).\<close>

fun dminus :: "double \<Rightarrow> double \<Rightarrow> double" where
  "dminus (Finite x) (Finite y) = rnd (x - y)"
| "dminus NaN _ = NaN"
| "dminus _ NaN = NaN"
| "dminus PInf PInf = NaN"
| "dminus NInf NInf = NaN"
| "dminus PInf _ = PInf"
| "dminus NInf _ = NInf"
| "dminus (Finite x) PInf = NInf"
| "dminus (Finite x) NInf = PInf"

fun dtimes :: "double \<Rightarrow> double \<Rightarrow> double" where
  "dtimes (Finite x) (Finite y) = rnd (x * y)"
| "dtimes NaN _ = NaN"
| "dtimes _ NaN = NaN"
| "dtimes (Finite x) PInf = (if x = 0 then NaN else if 0 < x then PInf else NInf)"
| "dtimes (Finite x) NInf = (if x = 0 then NaN else if 0 < x then NInf else PInf)"
| "dtimes PInf (Finite y) = (if y = 0 then NaN else if 0 < y then PInf else NInf)"
| "dtimes NInf (Finite y) = (if y = 0 then NaN else if 0 < y then NInf else PInf)"
| "dtimes PInf PInf = PInf"
| "dtimes PInf NInf = NInf"
| "dtimes NInf PInf = NInf"
| "dtimes NInf NInf = PInf"

fun ddivide :: "double \<Rightarrow> double \<Rightarrow> double" where
  "ddivide (Finite x) (Finite y) = rnd (x / y)"
| "ddivide NaN _ = NaN"
| "ddivide _ NaN = NaN"
| "ddivide (Finite x) PInf = Finite 0"
| "ddivide (Finite x) NInf = Finite 0"
| "ddivide PInf (Finite y) = (if 0 < y then PInf else NInf)"
| "ddivide NInf (Finite y) = (if 0 < y then NInf else PInf)"
| "ddivide _ _ = NaN"

text \<open>A finite double: a finite number that rounding leaves as it is.\<close>

definition finite_double :: "double \<Rightarrow> bool" where
  "finite_double d \<longleftrightarrow> (case d of Finite x \<Rightarrow> rnd x = Finite x | _ \<Rightarrow> False)"

subsection \<open>Arrays and arithmetic\<close>

type_synonym matrix = "double list list"
type_synonym vector = "double list"

text \<open>Line 10: \<open>constexpr int N = 10\<close>.\<close>

definition N :: nat where
  "N = 10"

text \<open>
  The literal \<open>1e-10\<close> of line 33, read as the real number it denotes: the double it
  stands for is the nearest one above, with no double between the two, so that both are
  above the same doubles.
\<close>

definition threshold :: double where
  "threshold = Finite (1 / 10 ^ 10)"

text \<open>The shape the parameter types \<open>double A[N][N]\<close> and \<open>double b[N]\<close> ask for.\<close>

definition wf_matrix :: "matrix \<Rightarrow> bool" where
  "wf_matrix A \<longleftrightarrow> length A = N \<and> list_all (\<lambda>r. length r = N) A"

definition wf_vector :: "vector \<Rightarrow> bool" where
  "wf_vector b \<longleftrightarrow> length b = N"

text \<open>Reads and writes of \<open>A[i][j]\<close> and \<open>b[i]\<close>: a fault outside \<open>0..N-1\<close>.\<close>

definition getA :: "matrix \<Rightarrow> nat \<Rightarrow> nat \<Rightarrow> double option" where
  "getA A i j = (if i < N \<and> j < N then Some (A ! i ! j) else None)"

definition setA :: "matrix \<Rightarrow> nat \<Rightarrow> nat \<Rightarrow> double \<Rightarrow> matrix option" where
  "setA A i j v = (if i < N \<and> j < N then Some (A[i := (A ! i)[j := v]]) else None)"

definition getb :: "vector \<Rightarrow> nat \<Rightarrow> double option" where
  "getb b i = (if i < N then Some (b ! i) else None)"

definition setb :: "vector \<Rightarrow> nat \<Rightarrow> double \<Rightarrow> vector option" where
  "setb b i v = (if i < N then Some (b[i := v]) else None)"

text \<open>
  \<open>x / y\<close> as the solver uses it. With \<open>y\<close> zero the source gets an infinity whose sign
  is that of the zero, or a NaN; the model, which has one zero, stops there.
\<close>

definition fdiv :: "double \<Rightarrow> double \<Rightarrow> double option" where
  "fdiv x y = (if y = Finite 0 then None else Some (ddivide x y))"

subsection \<open>Forward elimination (lines 23 to 57)\<close>

text \<open>Lines 26 to 30: the scan for the pivot row, from row \<open>i\<close> on, \<open>max_row\<close> so far.\<close>

function find_max_row :: "matrix \<Rightarrow> nat \<Rightarrow> nat \<Rightarrow> nat \<Rightarrow> nat option" where
  "find_max_row A p i max_row =
     (if i < N then do {
        x \<leftarrow> getA A i p;
        y \<leftarrow> getA A max_row p;
        find_max_row A p (i + 1) (if dless (dabs y) (dabs x) then i else max_row)
      } else Some max_row)"
  by pat_completeness auto
termination
  by (relation "measure (\<lambda>(A, p, i, max_row). N - i)") auto

text \<open>
  Line 39: \<open>std::swap_ranges(A[p], A[p] + N, A[max_row])\<close> exchanges the two rows element
  by element, from column \<open>k\<close> on.
\<close>

function swap_ranges :: "matrix \<Rightarrow> nat \<Rightarrow> nat \<Rightarrow> nat \<Rightarrow> matrix option" where
  "swap_ranges A p q k =
     (if k < N then do {
        x \<leftarrow> getA A p k;
        y \<leftarrow> getA A q k;
        A1 \<leftarrow> setA A p k y;
        A2 \<leftarrow> setA A1 q k x;
        swap_ranges A2 p q (k + 1)
      } else Some A)"
  by pat_completeness auto
termination
  by (relation "measure (\<lambda>(A, p, q, k). N - k)") auto

text \<open>Line 40: \<open>std::swap(b[p], b[max_row])\<close>.\<close>

definition swap_b :: "vector \<Rightarrow> nat \<Rightarrow> nat \<Rightarrow> vector option" where
  "swap_b b p q = do {
     x \<leftarrow> getb b p;
     y \<leftarrow> getb b q;
     b1 \<leftarrow> setb b p y;
     setb b1 q x
   }"

text \<open>Lines 38 to 41.\<close>

definition swap_rows :: "matrix \<Rightarrow> vector \<Rightarrow> nat \<Rightarrow> nat \<Rightarrow> (matrix \<times> vector) option" where
  "swap_rows A b p max_row =
     (if max_row \<noteq> p then do {
        A1 \<leftarrow> swap_ranges A p max_row 0;
        b1 \<leftarrow> swap_b b p max_row;
        Some (A1, b1)
      } else Some (A, b))"

text \<open>Lines 52 to 54: the update of row \<open>i\<close> from column \<open>j\<close> on.\<close>

function elim_cols :: "matrix \<Rightarrow> nat \<Rightarrow> nat \<Rightarrow> double \<Rightarrow> nat \<Rightarrow> matrix option" where
  "elim_cols A p i factor j =
     (if j < N then do {
        x \<leftarrow> getA A i j;
        y \<leftarrow> getA A p j;
        A1 \<leftarrow> setA A i j (dminus x (dtimes factor y));
        elim_cols A1 p i factor (j + 1)
      } else Some A)"
  by pat_completeness auto
termination
  by (relation "measure (\<lambda>(A, p, i, factor, j). N - j)") auto

text \<open>Lines 44 to 56: the elimination of column \<open>p\<close> from row \<open>i\<close> on.\<close>

function elim_rows :: "matrix \<Rightarrow> vector \<Rightarrow> nat \<Rightarrow> nat \<Rightarrow> (matrix \<times> vector) option" where
  "elim_rows A b p i =
     (if i < N then do {
        aip \<leftarrow> getA A i p;
        app \<leftarrow> getA A p p;
        factor \<leftarrow> fdiv aip app;
        bi \<leftarrow> getb b i;
        bp \<leftarrow> getb b p;
        b1 \<leftarrow> setb b i (dminus bi (dtimes factor bp));
        A1 \<leftarrow> elim_cols A p i factor (p + 1);
        A2 \<leftarrow> setA A1 i p (Finite 0);
        elim_rows A2 b1 p (i + 1)
      } else Some (A, b))"
  by pat_completeness auto
termination
  by (relation "measure (\<lambda>(A, b, p, i). N - i)") auto

text \<open>
  What one iteration of the loop of line 23 leaves: either the function has returned
  \<open>false\<close> from inside it (line 34), or the loop goes on with the arrays as they are.
\<close>

datatype loop_state = Returned_false matrix vector | Continue matrix vector

text \<open>Lines 25 to 56: the body of the loop, for pivot column \<open>p\<close>.\<close>

definition pivot_step :: "matrix \<Rightarrow> vector \<Rightarrow> nat \<Rightarrow> loop_state option" where
  "pivot_step A b p = do {
     max_row \<leftarrow> find_max_row A p (p + 1) p;
     pivot \<leftarrow> getA A max_row p;
     if dless (dabs pivot) threshold then Some (Returned_false A b)
     else do {
       (A1, b1) \<leftarrow> swap_rows A b p max_row;
       (A2, b2) \<leftarrow> elim_rows A1 b1 p (p + 1);
       Some (Continue A2 b2)
     }
   }"

text \<open>
  Line 23: \<open>for (int p = 0; p < N; p++)\<close>. \<open>forward_elimination A b n\<close> is the state after
  the first \<open>n\<close> iterations, those of \<open>p = 0, ..., n - 1\<close>: iteration \<open>p\<close> runs on what the
  iterations before it left, unless one of them has returned.
\<close>

fun forward_elimination :: "matrix \<Rightarrow> vector \<Rightarrow> nat \<Rightarrow> loop_state option" where
  "forward_elimination A b 0 = Some (Continue A b)"
| "forward_elimination A b (Suc p) = do {
     s \<leftarrow> forward_elimination A b p;
     case s of
       Returned_false A1 b1 \<Rightarrow> Some (Returned_false A1 b1)
     | Continue A1 b1 \<Rightarrow> pivot_step A1 b1 p
   }"

subsection \<open>Back substitution (lines 60 to 68)\<close>

text \<open>Lines 62 to 64: the terms already solved, from column \<open>j\<close> on.\<close>

function subtract_solved :: "matrix \<Rightarrow> vector \<Rightarrow> nat \<Rightarrow> nat \<Rightarrow> vector option" where
  "subtract_solved A b i j =
     (if j < N then do {
        bi \<leftarrow> getb b i;
        aij \<leftarrow> getA A i j;
        bj \<leftarrow> getb b j;
        b1 \<leftarrow> setb b i (dminus bi (dtimes aij bj));
        subtract_solved A b1 i (j + 1)
      } else Some b)"
  by pat_completeness auto
termination
  by (relation "measure (\<lambda>(A, b, i, j). N - j)") auto

text \<open>
  Line 60: \<open>for (int i = N - 1; i >= 0; i--)\<close>. \<open>back_substitution A b n\<close> runs the
  iterations \<open>i = n - 1, ..., 0\<close>. The matrix is only read.
\<close>

fun back_substitution :: "matrix \<Rightarrow> vector \<Rightarrow> nat \<Rightarrow> vector option" where
  "back_substitution A b 0 = Some b"
| "back_substitution A b (Suc i) = do {
     b1 \<leftarrow> subtract_solved A b i (i + 1);
     bi \<leftarrow> getb b1 i;
     aii \<leftarrow> getA A i i;
     q \<leftarrow> fdiv bi aii;
     b2 \<leftarrow> setb b1 i q;
     back_substitution A b2 i
   }"

subsection \<open>The solver (lines 21 to 72)\<close>

text \<open>The result: the boolean returned, and the final contents of \<open>A\<close> and of \<open>b\<close>.\<close>

definition solveMatrix :: "matrix \<Rightarrow> vector \<Rightarrow> (bool \<times> matrix \<times> vector) option" where
  "solveMatrix A b = do {
     s \<leftarrow> forward_elimination A b N;
     case s of
       Returned_false A1 b1 \<Rightarrow> Some (False, A1, b1)
     | Continue A1 b1 \<Rightarrow> do {
         x \<leftarrow> back_substitution A1 b1 N;
         Some (True, A1, x)
       }
   }"

subsection \<open>Notions used in the statements and proofs\<close>

text \<open>The identity matrix of dimension \<open>N\<close>.\<close>

definition identity :: matrix where
  "identity = map (\<lambda>i. map (\<lambda>j. if i = j then Finite 1 else Finite 0) [0..<N]) [0..<N]"

text \<open>
  What a pivot step on column \<open>p\<close> with pivot row \<open>r\<close> leaves of \<open>A\<close> and \<open>b\<close>, entry by
  entry: the rows \<open>p\<close> and \<open>r\<close> exchanged, then from every row below \<open>p\<close> the multiple
  of the pivot row subtracted right of column \<open>p\<close>, and column \<open>p\<close> set to zero there.
\<close>

definition step_effect :: "matrix \<Rightarrow> vector \<Rightarrow> nat \<Rightarrow> nat \<Rightarrow> matrix \<Rightarrow> vector \<Rightarrow> bool" where
  "step_effect A b p r A' b' \<longleftrightarrow>
     wf_matrix A' \<and> wf_vector b'
     \<and> (\<forall>i<N. \<forall>c<N. A' ! i ! c =
          (if p < i
           then (if p < c
                 then dminus (A[p := A ! r, r := A ! p] ! i ! c)
                        (dtimes (ddivide (A[p := A ! r, r := A ! p] ! i ! p) (A ! r ! p))
                           (A ! r ! c))
                 else if c = p then Finite 0 else A[p := A ! r, r := A ! p] ! i ! c)
           else A[p := A ! r, r := A ! p] ! i ! c))
     \<and> (\<forall>i<N. b' ! i =
          (if p < i
           then dminus (b[p := b ! r, r := b ! p] ! i)
                  (dtimes (ddivide (A[p := A ! r, r := A ! p] ! i ! p) (A ! r ! p)) (b ! r))
           else b[p := b ! r, r := b ! p] ! i))"


text \<open>Every entry of a matrix, of a vector, is a finite double.\<close>

definition all_finite :: "matrix \<Rightarrow> bool" where
  "all_finite A \<longleftrightarrow> list_all (list_all finite_double) A"

subsection \<open>Sample inputs\<close>

text \<open>
  A system on which the solver succeeds, and the arrays of its run. In column 0 the rows
  1 and 2 tie for the largest absolute value; step 0 exchanges rows 0 and 1, step 1 rows
  1 and 2. \<open>example_A1\<close>, \<open>example_b1\<close> are the arrays after step 0, \<open>example_U\<close>,
  \<open>example_c\<close> those after step 1 and to the end of the elimination, \<open>example_x\<close> the
  vector that back substitution leaves.
\<close>

definition example_A :: matrix where
  "example_A =
    [[Finite 1, Finite 2, Finite 0, Finite 0, Finite 0, Finite 0, Finite 0, Finite 0, Finite 0, Finite 0],
     [Finite 2, Finite 8, Finite 0, Finite 0, Finite 0, Finite 0, Finite 0, Finite 0, Finite 0, Finite 0],
     [Finite (- 2), Finite 0, Finite 1, Finite 0, Finite 0, Finite 0, Finite 0, Finite 0, Finite 0, Finite 0],
     [Finite 0, Finite 0, Finite 0, Finite 1, Finite 0, Finite 0, Finite 0, Finite 0, Finite 0, Finite 0],
     [Finite 0, Finite 0, Finite 0, Finite 0, Finite 1, Finite 0, Finite 0, Finite 0, Finite 0, Finite 0],
     [Finite 0, Finite 0, Finite 0, Finite 0, Finite 0, Finite 1, Finite 0, Finite 0, Finite 0, Finite 0],
     [Finite 0, Finite 0, Finite 0, Finite 0, Finite 0, Finite 0, Finite 1, Finite 0, Finite 0, Finite 0],
     [Finite 0, Finite 0, Finite 0, Finite 0, Finite 0, Finite 0, Finite 0, Finite 1, Finite 0, Finite 0],
     [Finite 0, Finite 0, Finite 0, Finite 0, Finite 0, Finite 0, Finite 0, Finite 0, Finite 1, Finite 0],
     [Finite 0, Finite 0, Finite 0, Finite 0, Finite 0, Finite 0, Finite 0, Finite 0, Finite 0, Finite 1]]"

definition example_b :: vector where
  "example_b =
    [Finite 5, Finite 12, Finite 3, Finite 4, Finite 5, Finite 6, Finite 7, Finite 8, Finite 9, Finite 10]"

definition example_A1 :: matrix where
  "example_A1 =
    [[Finite 2, Finite 8, Finite 0, Finite 0, Finite 0, Finite 0, Finite 0, Finite 0, Finite 0, Finite 0],
     [Finite 0, Finite (- 2), Finite 0, Finite 0, Finite 0, Finite 0, Finite 0, Finite 0, Finite 0, Finite 0],
     [Finite 0, Finite 8, Finite 1, Finite 0, Finite 0, Finite 0, Finite 0, Finite 0, Finite 0, Finite 0],
     [Finite 0, Finite 0, Finite 0, Finite 1, Finite 0, Finite 0, Finite 0, Finite 0, Finite 0, Finite 0],
     [Finite 0, Finite 0, Finite 0, Finite 0, Finite 1, Finite 0, Finite 0, Finite 0, Finite 0, Finite 0],
     [Finite 0, Finite 0, Finite 0, Finite 0, Finite 0, Finite 1, Finite 0, Finite 0, Finite 0, Finite 0],
     [Finite 0, Finite 0, Finite 0, Finite 0, Finite 0, Finite 0, Finite 1, Finite 0, Finite 0, Finite 0],
     [Finite 0, Finite 0, Finite 0, Finite 0, Finite 0, Finite 0, Finite 0, Finite 1, Finite 0, Finite 0],
     [Finite 0, Finite 0, Finite 0, Finite 0, Finite 0, Finite 0, Finite 0, Finite 0, Finite 1, Finite 0],
     [Finite 0, Finite 0, Finite 0, Finite 0, Finite 0, Finite 0, Finite 0, Finite 0, Finite 0, Finite 1]]"

definition example_b1 :: vector where
  "example_b1 =
    [Finite 12, Finite (- 1), Finite 15, Finite 4, Finite 5, Finite 6, Finite 7, Finite 8, Finite 9, Finite 10]"

definition example_U :: matrix where
  "example_U =
    [[Finite 2, Finite 8, Finite 0, Finite 0, Finite 0, Finite 0, Finite 0, Finite 0, Finite 0, Finite 0],
     [Finite 0, Finite 8, Finite 1, Finite 0, Finite 0, Finite 0, Finite 0, Finite 0, Finite 0, Finite 0],
     [Finite 0, Finite 0, Finite (1 / 4), Finite 0, Finite 0, Finite 0, Finite 0, Finite 0, Finite 0, Finite 0],
     [Finite 0, Finite 0, Finite 0, Finite 1, Finite 0, Finite 0, Finite 0, Finite 0, Finite 0, Finite 0],
     [Finite 0, Finite 0, Finite 0, Finite 0, Finite 1, Finite 0, Finite 0, Finite 0, Finite 0, Finite 0],
     [Finite 0, Finite 0, Finite 0, Finite 0, Finite 0, Finite 1, Finite 0, Finite 0, Finite 0, Finite 0],
     [Finite 0, Finite 0, Finite 0, Finite 0, Finite 0, Finite 0, Finite 1, Finite 0, Finite 0, Finite 0],
     [Finite 0, Finite 0, Finite 0, Finite 0, Finite 0, Finite 0, Finite 0, Finite 1, Finite 0, Finite 0],
     [Finite 0, Finite 0, Finite 0, Finite 0, Finite 0, Finite 0, Finite 0, Finite 0, Finite 1, Finite 0],
     [Finite 0, Finite 0, Finite 0, Finite 0, Finite 0, Finite 0, Finite 0, Finite 0, Finite 0, Finite 1]]"

definition example_c :: vector where
  "example_c =
    [Finite 12, Finite 15, Finite (11 / 4), Finite 4, Finite 5, Finite 6, Finite 7, Finite 8, Finite 9, Finite 10]"

definition example_x :: vector where
  "example_x =
    [Finite 4, Finite (1 / 2), Finite 11, Finite 4, Finite 5, Finite 6, Finite 7, Finite 8, Finite 9, Finite 10]"

text \<open>
  The same matrix with row 3 zero, and the arrays of its run, which ends in step 3;
  and with row 2 a copy of row 1, where the run ends in step 2.
\<close>

definition example_Z :: matrix where
  "example_Z =
    [[Finite 1, Finite 2, Finite 0, Finite 0, Finite 0, Finite 0, Finite 0, Finite 0, Finite 0, Finite 0],
     [Finite 2, Finite 8, Finite 0, Finite 0, Finite 0, Finite 0, Finite 0, Finite 0, Finite 0, Finite 0],
     [Finite (- 2), Finite 0, Finite 1, Finite 0, Finite 0, Finite 0, Finite 0, Finite 0, Finite 0, Finite 0],
     [Finite 0, Finite 0, Finite 0, Finite 0, Finite 0, Finite 0, Finite 0, Finite 0, Finite 0, Finite 0],
     [Finite 0, Finite 0, Finite 0, Finite 0, Finite 1, Finite 0, Finite 0, Finite 0, Finite 0, Finite 0],
     [Finite 0, Finite 0, Finite 0, Finite 0, Finite 0, Finite 1, Finite 0, Finite 0, Finite 0, Finite 0],
     [Finite 0, Finite 0, Finite 0, Finite 0, Finite 0, Finite 0, Finite 1, Finite 0, Finite 0, Finite 0],
     [Finite 0, Finite 0, Finite 0, Finite 0, Finite 0, Finite 0, Finite 0, Finite 1, Finite 0, Finite 0],
     [Finite 0, Finite 0, Finite 0, Finite 0, Finite 0, Finite 0, Finite 0, Finite 0, Finite 1, Finite 0],
     [Finite 0, Finite 0, Finite 0, Finite 0, Finite 0, Finite 0, Finite 0, Finite 0, Finite 0, Finite 1]]"

definition example_Z1 :: matrix where
  "example_Z1 =
    [[Finite 2, Finite 8, Finite 0, Finite 0, Finite 0, Finite 0, Finite 0, Finite 0, Finite 0, Finite 0],
     [Finite 0, Finite (- 2), Finite 0, Finite 0, Finite 0, Finite 0, Finite 0, Finite 0, Finite 0, Finite 0],
     [Finite 0, Finite 8, Finite 1, Finite 0, Finite 0, Finite 0, Finite 0, Finite 0, Finite 0, Finite 0],
     [Finite 0, Finite 0, Finite 0, Finite 0, Finite 0, Finite 0, Finite 0, Finite 0, Finite 0, Finite 0],
     [Finite 0, Finite 0, Finite 0, Finite 0, Finite 1, Finite 0, Finite 0, Finite 0, Finite 0, Finite 0],
     [Finite 0, Finite 0, Finite 0, Finite 0, Finite 0, Finite 1, Finite 0, Finite 0, Finite 0, Finite 0],
     [Finite 0, Finite 0, Finite 0, Finite 0, Finite 0, Finite 0, Finite 1, Finite 0, Finite 0, Finite 0],
     [Finite 0, Finite 0, Finite 0, Finite 0, Finite 0, Finite 0, Finite 0, Finite 1, Finite 0, Finite 0],
     [Finite 0, Finite 0, Finite 0, Finite 0, Finite 0, Finite 0, Finite 0, Finite 0, Finite 1, Finite 0],
     [Finite 0, Finite 0, Finite 0, Finite 0, Finite 0, Finite 0, Finite 0, Finite 0, Finite 0, Finite 1]]"

definition example_V :: matrix where
  "example_V =
    [[Finite 2, Finite 8, Finite 0, Finite 0, Finite 0, Finite 0, Finite 0, Finite 0, Finite 0, Finite 0],
     [Finite 0, Finite 8, Finite 1, Finite 0, Finite 0, Finite 0, Finite 0, Finite 0, Finite 0, Finite 0],
     [Finite 0, Finite 0, Finite (1 / 4), Finite 0, Finite 0, Finite 0, Finite 0, Finite 0, Finite 0, Finite 0],
     [Finite 0, Finite 0, Finite 0, Finite 0, Finite 0, Finite 0, Finite 0, Finite 0, Finite 0, Finite 0],
     [Finite 0, Finite 0, Finite 0, Finite 0, Finite 1, Finite 0, Finite 0, Finite 0, Finite 0, Finite 0],
     [Finite 0, Finite 0, Finite 0, Finite 0, Finite 0, Finite 1, Finite 0, Finite 0, Finite 0, Finite 0],
     [Finite 0, Finite 0, Finite 0, Finite 0, Finite 0, Finite 0, Finite 1, Finite 0, Finite 0, Finite 0],
     [Finite 0, Finite 0, Finite 0, Finite 0, Finite 0, Finite 0, Finite 0, Finite 1, Finite 0, Finite 0],
     [Finite 0, Finite 0, Finite 0, Finite 0, Finite 0, Finite 0, Finite 0, Finite 0, Finite 1, Finite 0],
     [Finite 0, Finite 0, Finite 0, Finite 0, Finite 0, Finite 0, Finite 0, Finite 0, Finite 0, Finite 1]]"




text \<open>
  A matrix of finite doubles, the identity but for the rows and columns 6 to 9, with
  entries \<open>2^1023\<close> and \<open>-2^1023\<close> in column 8 of rows 6 and 7, and with row 8 zero;
  the vector of ones; and the arrays of the run: \<open>overflow_A7\<close>, \<open>overflow_b7\<close> after
  step 6, \<open>overflow_A8\<close> after step 7, \<open>overflow_U\<close>, \<open>overflow_c\<close> after step 8 and
  to the end of the elimination, \<open>overflow_x\<close> after back substitution.
\<close>

definition huge :: real where
  "huge = 2 ^ 1023"

definition overflow_A :: matrix where
  "overflow_A =
    [[Finite 1, Finite 0, Finite 0, Finite 0, Finite 0, Finite 0, Finite 0, Finite 0, Finite 0, Finite 0],
     [Finite 0, Finite 1, Finite 0, Finite 0, Finite 0, Finite 0, Finite 0, Finite 0, Finite 0, Finite 0],
     [Finite 0, Finite 0, Finite 1, Finite 0, Finite 0, Finite 0, Finite 0, Finite 0, Finite 0, Finite 0],
     [Finite 0, Finite 0, Finite 0, Finite 1, Finite 0, Finite 0, Finite 0, Finite 0, Finite 0, Finite 0],
     [Finite 0, Finite 0, Finite 0, Finite 0, Finite 1, Finite 0, Finite 0, Finite 0, Finite 0, Finite 0],
     [Finite 0, Finite 0, Finite 0, Finite 0, Finite 0, Finite 1, Finite 0, Finite 0, Finite 0, Finite 0],
     [Finite 0, Finite 0, Finite 0, Finite 0, Finite 0, Finite 0, Finite 1, Finite 0, Finite huge, Finite 0],
     [Finite 0, Finite 0, Finite 0, Finite 0, Finite 0, Finite 0, Finite 1, Finite 1, Finite (- huge), Finite 0],
     [Finite 0, Finite 0, Finite 0, Finite 0, Finite 0, Finite 0, Finite 0, Finite 0, Finite 0, Finite 0],
     [Finite 0, Finite 0, Finite 0, Finite 0, Finite 0, Finite 0, Finite 0, Finite 1, Finite 0, Finite 0]]"

definition overflow_b :: vector where
  "overflow_b =
    [Finite 1, Finite 1, Finite 1, Finite 1, Finite 1, Finite 1, Finite 1, Finite 1, Finite 1, Finite 1]"

definition overflow_A7 :: matrix where
  "overflow_A7 =
    [[Finite 1, Finite 0, Finite 0, Finite 0, Finite 0, Finite 0, Finite 0, Finite 0, Finite 0, Finite 0],
     [Finite 0, Finite 1, Finite 0, Finite 0, Finite 0, Finite 0, Finite 0, Finite 0, Finite 0, Finite 0],
     [Finite 0, Finite 0, Finite 1, Finite 0, Finite 0, Finite 0, Finite 0, Finite 0, Finite 0, Finite 0],
     [Finite 0, Finite 0, Finite 0, Finite 1, Finite 0, Finite 0, Finite 0, Finite 0, Finite 0, Finite 0],
     [Finite 0, Finite 0, Finite 0, Finite 0, Finite 1, Finite 0, Finite 0, Finite 0, Finite 0, Finite 0],
     [Finite 0, Finite 0, Finite 0, Finite 0, Finite 0, Finite 1, Finite 0, Finite 0, Finite 0, Finite 0],
     [Finite 0, Finite 0, Finite 0, Finite 0, Finite 0, Finite 0, Finite 1, Finite 0, Finite huge, Finite 0],
     [Finite 0, Finite 0, Finite 0, Finite 0, Finite 0, Finite 0, Finite 0, Finite 1, NInf, Finite 0],
     [Finite 0, Finite 0, Finite 0, Finite 0, Finite 0, Finite 0, Finite 0, Finite 0, Finite 0, Finite 0],
     [Finite 0, Finite 0, Finite 0, Finite 0, Finite 0, Finite 0, Finite 0, Finite 1, Finite 0, Finite 0]]"

definition overflow_b7 :: vector where
  "overflow_b7 =
    [Finite 1, Finite 1, Finite 1, Finite 1, Finite 1, Finite 1, Finite 1, Finite 0, Finite 1, Finite 1]"

definition overflow_A8 :: matrix where
  "overflow_A8 =
    [[Finite 1, Finite 0, Finite 0, Finite 0, Finite 0, Finite 0, Finite 0, Finite 0, Finite 0, Finite 0],
     [Finite 0, Finite 1, Finite 0, Finite 0, Finite 0, Finite 0, Finite 0, Finite 0, Finite 0, Finite 0],
     [Finite 0, Finite 0, Finite 1, Finite 0, Finite 0, Finite 0, Finite 0, Finite 0, Finite 0, Finite 0],
     [Finite 0, Finite 0, Finite 0, Finite 1, Finite 0, Finite 0, Finite 0, Finite 0, Finite 0, Finite 0],
     [Finite 0, Finite 0, Finite 0, Finite 0, Finite 1, Finite 0, Finite 0, Finite 0, Finite 0, Finite 0],
     [Finite 0, Finite 0, Finite 0, Finite 0, Finite 0, Finite 1, Finite 0, Finite 0, Finite 0, Finite 0],
     [Finite 0, Finite 0, Finite 0, Finite 0, Finite 0, Finite 0, Finite 1, Finite 0, Finite huge, Finite 0],
     [Finite 0, Finite 0, Finite 0, Finite 0, Finite 0, Finite 0, Finite 0, Finite 1, NInf, Finite 0],
     [Finite 0, Finite 0, Finite 0, Finite 0, Finite 0, Finite 0, Finite 0, Finite 0, NaN, Finite 0],
     [Finite 0, Finite 0, Finite 0, Finite 0, Finite 0, Finite 0, Finite 0, Finite 0, PInf, Finite 0]]"

definition overflow_U :: matrix where
  "overflow_U =
    [[Finite 1, Finite 0, Finite 0, Finite 0, Finite 0, Finite 0, Finite 0, Finite 0, Finite 0, Finite 0],
     [Finite 0, Finite 1, Finite 0, Finite 0, Finite 0, Finite 0, Finite 0, Finite 0, Finite 0, Finite 0],
     [Finite 0, Finite 0, Finite 1, Finite 0, Finite 0, Finite 0, Finite 0, Finite 0, Finite 0, Finite 0],
     [Finite 0, Finite 0, Finite 0, Finite 1, Finite 0, Finite 0, Finite 0, Finite 0, Finite 0, Finite 0],
     [Finite 0, Finite 0, Finite 0, Finite 0, Finite 1, Finite 0, Finite 0, Finite 0, Finite 0, Finite 0],
     [Finite 0, Finite 0, Finite 0, Finite 0, Finite 0, Finite 1, Finite 0, Finite 0, Finite 0, Finite 0],
     [Finite 0, Finite 0, Finite 0, Finite 0, Finite 0, Finite 0, Finite 1, Finite 0, Finite huge, Finite 0],
     [Finite 0, Finite 0, Finite 0, Finite 0, Finite 0, Finite 0, Finite 0, Finite 1, NInf, Finite 0],
     [Finite 0, Finite 0, Finite 0, Finite 0, Finite 0, Finite 0, Finite 0, Finite 0, NaN, Finite 0],
     [Finite 0, Finite 0, Finite 0, Finite 0, Finite 0, Finite 0, Finite 0, Finite 0, Finite 0, NaN]]"

definition overflow_c :: vector where
  "overflow_c =
    [Finite 1, Finite 1, Finite 1, Finite 1, Finite 1, Finite 1, Finite 1, Finite 0, Finite 1, NaN]"


text \<open>
  A system of finite doubles with the solution \<open>(2, -2^-1023, 1, ..., 1)\<close>, and the
  arrays of its run: \<open>wrong_U\<close>, \<open>wrong_c\<close> after step 0 and to the end of the
  elimination, \<open>wrong_x\<close> after back substitution.
\<close>

definition wrong_A :: matrix where
  "wrong_A =
    [[Finite 1, Finite huge, Finite 0, Finite 0, Finite 0, Finite 0, Finite 0, Finite 0, Finite 0, Finite 0],
     [Finite 1, Finite (- huge), Finite 0, Finite 0, Finite 0, Finite 0, Finite 0, Finite 0, Finite 0, Finite 0],
     [Finite 0, Finite 0, Finite 1, Finite 0, Finite 0, Finite 0, Finite 0, Finite 0, Finite 0, Finite 0],
     [Finite 0, Finite 0, Finite 0, Finite 1, Finite 0, Finite 0, Finite 0, Finite 0, Finite 0, Finite 0],
     [Finite 0, Finite 0, Finite 0, Finite 0, Finite 1, Finite 0, Finite 0, Finite 0, Finite 0, Finite 0],
     [Finite 0, Finite 0, Finite 0, Finite 0, Finite 0, Finite 1, Finite 0, Finite 0, Finite 0, Finite 0],
     [Finite 0, Finite 0, Finite 0, Finite 0, Finite 0, Finite 0, Finite 1, Finite 0, Finite 0, Finite 0],
     [Finite 0, Finite 0, Finite 0, Finite 0, Finite 0, Finite 0, Finite 0, Finite 1, Finite 0, Finite 0],
     [Finite 0, Finite 0, Finite 0, Finite 0, Finite 0, Finite 0, Finite 0, Finite 0, Finite 1, Finite 0],
     [Finite 0, Finite 0, Finite 0, Finite 0, Finite 0, Finite 0, Finite 0, Finite 0, Finite 0, Finite 1]]"

definition wrong_b :: vector where
  "wrong_b =
    [Finite 1, Finite 3, Finite 1, Finite 1, Finite 1, Finite 1, Finite 1, Finite 1, Finite 1, Finite 1]"

definition wrong_U :: matrix where
  "wrong_U =
    [[Finite 1, Finite huge, Finite 0, Finite 0, Finite 0, Finite 0, Finite 0, Finite 0, Finite 0, Finite 0],
     [Finite 0, NInf, Finite 0, Finite 0, Finite 0, Finite 0, Finite 0, Finite 0, Finite 0, Finite 0],
     [Finite 0, Finite 0, Finite 1, Finite 0, Finite 0, Finite 0, Finite 0, Finite 0, Finite 0, Finite 0],
     [Finite 0, Finite 0, Finite 0, Finite 1, Finite 0, Finite 0, Finite 0, Finite 0, Finite 0, Finite 0],
     [Finite 0, Finite 0, Finite 0, Finite 0, Finite 1, Finite 0, Finite 0, Finite 0, Finite 0, Finite 0],
     [Finite 0, Finite 0, Finite 0, Finite 0, Finite 0, Finite 1, Finite 0, Finite 0, Finite 0, Finite 0],
     [Finite 0, Finite 0, Finite 0, Finite 0, Finite 0, Finite 0, Finite 1, Finite 0, Finite 0, Finite 0],
     [Finite 0, Finite 0, Finite 0, Finite 0, Finite 0, Finite 0, Finite 0, Finite 1, Finite 0, Finite 0],
     [Finite 0, Finite 0, Finite 0, Finite 0, Finite 0, Finite 0, Finite 0, Finite 0, Finite 1, Finite 0],
     [Finite 0, Finite 0, Finite 0, Finite 0, Finite 0, Finite 0, Finite 0, Finite 0, Finite 0, Finite 1]]"

definition wrong_c :: vector where
  "wrong_c =
    [Finite 1, Finite 2, Finite 1, Finite 1, Finite 1, Finite 1, Finite 1, Finite 1, Finite 1, Finite 1]"

definition wrong_x :: vector where
  "wrong_x =
    [Finite 1, Finite 0, Finite 1, Finite 1, Finite 1, Finite 1, Finite 1, Finite 1, Finite 1, Finite 1]"

text \<open>
  The number a finite double stands for, and the value of row \<open>i\<close> of a matrix of finite
  doubles on a vector of finite doubles, computed without rounding.
\<close>

fun value_of :: "double \<Rightarrow> real" where
  "value_of (Finite x) = x"
| "value_of _ = 0"

definition row_value :: "matrix \<Rightarrow> vector \<Rightarrow> nat \<Rightarrow> real" where
  "row_value A x i = sum_list (map2 (\<lambda>a v. value_of a * value_of v) (A ! i) x)"

declare find_max_row.simps [simp del]
declare swap_ranges.simps [simp del]
declare elim_cols.simps [simp del]
declare elim_rows.simps [simp del]
declare subtract_solved.simps [simp del]

section \<open>Verification\<close>

subsection \<open>Rounding\<close>

lemma round_even_int: "q \<in> \<int> \<Longrightarrow> of_int (round_even q) = q"
  by (auto simp: round_even_def Ints_def)

lemma round_even_ge: "of_int n \<le> q \<Longrightarrow> n \<le> round_even q"
proof -
  assume "of_int n \<le> q"
  then have "n \<le> \<lfloor>q\<rfloor>" by (simp add: le_floor_iff)
  then show ?thesis by (auto simp: round_even_def Let_def)
qed

lemma round_even_le: "q \<le> of_int n \<Longrightarrow> round_even q \<le> n"
proof -
  assume a: "q \<le> of_int n"
  then have f: "\<lfloor>q\<rfloor> \<le> n" by (simp add: floor_le_iff)
  show ?thesis
  proof (cases "\<lfloor>q\<rfloor> = n")
    case True
    then have "q = of_int n" using a by (metis of_int_floor_le order_antisym)
    then show ?thesis by (simp add: round_even_def)
  next
    case False
    with f have "\<lfloor>q\<rfloor> + 1 \<le> n" by simp
    then show ?thesis using f by (auto simp: round_even_def Let_def)
  qed
qed

lemma rnd_zero [simp]: "rnd 0 = Finite 0"
  by (simp add: rnd_def)

lemma rnd_exact:
  assumes "x \<noteq> 0" "x / 2 powi (exponent x - 52) \<in> \<int>" "\<bar>x\<bar> < 2 ^ 1024"
  shows "rnd x = Finite x"
proof -
  have u: "(2::real) powi (exponent x - 52) \<noteq> 0" by simp
  have "of_int (round_even (x / 2 powi (exponent x - 52))) * 2 powi (exponent x - 52) = x"
    using round_even_int[OF assms(2)] u by simp
  then show ?thesis using assms(1,3) by (simp add: rnd_def Let_def)
qed

lemma exponent_le:
  assumes "x \<noteq> 0" "\<bar>x\<bar> < 2 powi (k + 1)" "- 1022 \<le> k"
  shows "exponent x \<le> k"
proof -
  have "log 2 \<bar>x\<bar> < of_int (k + 1)"
  proof -
    have "(2::real) powr of_int (k + 1) = 2 powi (k + 1)"
      by (rule powr_real_of_int') auto
    with assms(2) have "\<bar>x\<bar> < 2 powr of_int (k + 1)" by simp
    then show ?thesis using assms(1) by (simp add: log_less_iff)
  qed
  then have "\<lfloor>log 2 \<bar>x\<bar>\<rfloor> < k + 1" unfolding floor_less_iff by simp
  with assms(3) show ?thesis by (simp add: exponent_def)
qed


lemma rnd_scaled:
  assumes "\<bar>m\<bar> < 2 ^ 53" "m \<noteq> 0" "- 1074 \<le> j" "\<bar>of_int m * 2 powi j\<bar> < (2::real) ^ 1024"
  shows "rnd (of_int m * 2 powi j) = Finite (of_int m * 2 powi j)"
proof (rule rnd_exact)
  let ?x = "of_int m * 2 powi j :: real"
  show nz: "?x \<noteq> 0" using assms(2) by simp
  show "\<bar>?x\<bar> < 2 ^ 1024" by (rule assms(4))
  have lt: "\<bar>?x\<bar> < 2 powi (52 + j + 1)"
  proof -
    have "\<bar>real_of_int m\<bar> < 2 ^ 53"
      using assms(1) by (metis of_int_abs of_int_less_numeral_power_cancel_iff)
    then have "\<bar>?x\<bar> < 2 ^ 53 * 2 powi j"
      by (simp add: abs_mult)
    also have "\<dots> = 2 powi 53 * 2 powi j"
      by (simp only: power_int_def) simp
    also have "\<dots> = 2 powi (53 + j)"
      by (subst power_int_add) simp_all
    finally show ?thesis by (simp add: algebra_simps)
  qed
  have e: "exponent ?x \<le> 52 + j"
    using nz lt assms(3) by (intro exponent_le) auto
  define d where "d = nat (52 + j - exponent ?x)"
  have d: "int d = 52 + j - exponent ?x" using e by (simp add: d_def)
  have b: "(1::real) / 2 powi (exponent ?x - 52) = 2 powi (- (exponent ?x - 52))"
    by (simp only: power_int_minus inverse_eq_divide)
  have "?x / 2 powi (exponent ?x - 52)
      = of_int m * (2 powi j * (1 / 2 powi (exponent ?x - 52)))"
    by simp
  also have "\<dots> = of_int m * (2 powi j * 2 powi (- (exponent ?x - 52)))"
    unfolding b ..
  also have "\<dots> = of_int m * 2 powi (j + - (exponent ?x - 52))"
    by (subst power_int_add) simp_all
  finally have "?x / 2 powi (exponent ?x - 52) = of_int m * 2 powi (52 + j - exponent ?x)"
    by (simp add: algebra_simps)
  also have "\<dots> = of_int (m * 2 ^ d)" unfolding d[symmetric] by simp
  finally show "?x / 2 powi (exponent ?x - 52) \<in> \<int>" by simp
qed

lemma rnd_of_int:
  assumes "\<bar>m\<bar> < 2 ^ 53"
  shows "rnd (of_int m) = Finite (of_int m)"
proof (cases "m = 0")
  case True
  then show ?thesis by simp
next
  case False
  have "\<bar>real_of_int m\<bar> < 2 ^ 53"
    using assms by (metis of_int_abs of_int_less_numeral_power_cancel_iff)
  also have "(2::real) ^ 53 \<le> 2 ^ 1024" by (rule power_increasing) auto
  finally have "\<bar>of_int m * 2 powi 0\<bar> < (2::real) ^ 1024" by simp
  from rnd_scaled[OF assms False _ this] show ?thesis by simp
qed

lemma rnd_numeral: "numeral w < (2::int) ^ 53 \<Longrightarrow> rnd (numeral w) = Finite (numeral w)"
  using rnd_of_int[of "numeral w"] by simp

lemma rnd_neg_numeral:
  "numeral w < (2::int) ^ 53 \<Longrightarrow> rnd (- numeral w) = Finite (- numeral w)"
  using rnd_of_int[of "- numeral w"] by simp

lemma rnd_one [simp]: "rnd 1 = Finite 1"
  using rnd_of_int[of 1] by simp

lemma rnd_neg_one [simp]: "rnd (- 1) = Finite (- 1)"
  using rnd_of_int[of "- 1"] by simp

lemma rnd_power_of_two:
  assumes "- 1074 \<le> j" "j \<le> 1023"
  shows "rnd (2 powi j) = Finite (2 powi j)" "rnd (- (2 powi j)) = Finite (- (2 powi j))"
proof -
  have "(2::real) powi j < 2 powi 1024"
    using assms(2) by (intro power_int_strict_increasing) auto
  also have "(2::real) powi 1024 = 2 ^ 1024"
    by (simp only: power_int_def) simp
  finally have lt: "(2::real) powi j < 2 ^ 1024" .
  from rnd_scaled[of 1 j] assms(1) lt show "rnd (2 powi j) = Finite (2 powi j)" by simp
  from rnd_scaled[of "- 1" j] assms(1) lt show "rnd (- (2 powi j)) = Finite (- (2 powi j))"
    by simp
qed

lemma rnd_overflow:
  assumes "2 ^ 1024 \<le> \<bar>x\<bar>"
  shows "rnd x = (if 0 < x then PInf else NInf)"
proof -
  have nz: "x \<noteq> 0" using assms by auto
  define e where "e = \<lfloor>log 2 \<bar>x\<bar>\<rfloor>"
  have pos: "0 < \<bar>x\<bar>" using nz by simp
  have lo: "2 powi e \<le> \<bar>x\<bar>"
  proof -
    have "2 powr of_int e \<le> \<bar>x\<bar>"
      using pos floor_log_eq_powr_iff[of "\<bar>x\<bar>" 2 e] by (simp add: e_def)
    moreover have "(2::real) powr of_int e = 2 powi e" by (rule powr_real_of_int') auto
    ultimately show ?thesis by simp
  qed
  have e1024: "1024 \<le> e"
  proof -
    have "(2::real) powr of_int 1024 = 2 powi 1024" by (rule powr_real_of_int') auto
    also have "\<dots> = 2 ^ 1024" by (simp only: power_int_def) simp
    finally have "2 powr of_int 1024 \<le> \<bar>x\<bar>" using assms by simp
    then have "of_int 1024 \<le> log 2 \<bar>x\<bar>" using pos by (simp add: le_log_iff)
    then show ?thesis unfolding e_def by (simp add: le_floor_iff)
  qed
  then have ex: "exponent x = e" by (simp add: exponent_def e_def)
  define u where "u = (2::real) powi (e - 52)"
  have upos: "0 < u" by (simp add: u_def)
  have eu: "2 powi e = 2 ^ 52 * u"
  proof -
    have "(2::real) powi e = 2 powi (52 + (e - 52))" by simp
    also have "\<dots> = 2 powi 52 * 2 powi (e - 52)" by (subst power_int_add) simp_all
    also have "(2::real) powi 52 = 2 ^ 52" by (simp only: power_int_def) simp
    finally show ?thesis by (simp add: u_def)
  qed
  have big: "(2::real) ^ 1024 \<le> 2 powi e"
  proof -
    have "(2::real) powi 1024 \<le> 2 powi e" using e1024 by (intro power_int_increasing) auto
    moreover have "(2::real) powi 1024 = 2 ^ 1024" by (simp only: power_int_def) simp
    ultimately show ?thesis by simp
  qed
  define y where "y = of_int (round_even (x / u)) * u"
  have "2 ^ 1024 \<le> \<bar>y\<bar>"
  proof (cases "0 < x")
    case True
    then have "2 ^ 52 * u \<le> x" using lo eu by simp
    then have "of_int (2 ^ 52) \<le> x / u" using upos by (simp add: pos_le_divide_eq)
    then have "2 ^ 52 \<le> round_even (x / u)" by (rule round_even_ge)
    then have "(2::real) ^ 52 \<le> of_int (round_even (x / u))"
      by (metis of_int_le_iff of_int_numeral of_int_power)
    then have "2 ^ 52 * u \<le> y" using upos by (simp add: y_def)
    with big eu show ?thesis by simp
  next
    case False
    with nz have neg: "x < 0" by simp
    then have "x \<le> - (2 ^ 52 * u)" using lo eu by simp
    then have "x / u \<le> of_int (- (2 ^ 52))" using upos by (simp add: pos_divide_le_eq)
    then have "round_even (x / u) \<le> - (2 ^ 52)" by (rule round_even_le)
    then have "of_int (round_even (x / u)) \<le> - ((2::real) ^ 52)"
      by (metis of_int_le_iff of_int_minus of_int_numeral of_int_power)
    then have "of_int (round_even (x / u)) * u \<le> - ((2::real) ^ 52) * u"
      using upos by (intro mult_right_mono) auto
    then have "y \<le> - (2 ^ 52 * u)" by (simp add: y_def)
    with big eu show ?thesis by simp
  qed
  then show ?thesis using nz by (simp add: rnd_def Let_def ex y_def u_def)
qed

subsection \<open>The order on doubles\<close>

lemma dabs_NaN: "dabs x = NaN \<longleftrightarrow> x = NaN"
  by (cases x) auto

lemma dless_imp_dle: "dless a b \<Longrightarrow> dle a b"
  by (cases a; cases b) auto

lemma dle_dless_trans: "dle a b \<Longrightarrow> dless b c \<Longrightarrow> dless a c"
  by (cases a; cases b; cases c) auto

lemma dless_trans: "dless a b \<Longrightarrow> dless b c \<Longrightarrow> dless a c"
  by (cases a; cases b; cases c) auto

lemma not_dless_imp_dle: "a \<noteq> NaN \<Longrightarrow> b \<noteq> NaN \<Longrightarrow> \<not> dless a b \<Longrightarrow> dle b a"
  by (cases a; cases b) auto

lemma dle_refl: "a \<noteq> NaN \<Longrightarrow> dle a a"
  by (cases a) auto

lemma dless_irrefl: "\<not> dless a a"
  by (cases a) auto

lemma dle_not_dless: "dle a b \<Longrightarrow> \<not> dless b a"
  by (cases a; cases b) auto

lemma zero_below_threshold: "dless (dabs (Finite 0)) threshold"
  by (simp add: threshold_def)

lemma not_below_threshold_nonzero: "\<not> dless (dabs x) threshold \<Longrightarrow> x \<noteq> Finite 0"
  using zero_below_threshold by auto

lemma one_not_below_threshold: "\<not> dless (dabs (Finite 1)) threshold"
  by (simp add: threshold_def)

subsection \<open>Arrays of the right shape\<close>

lemma wf_matrix_row: "wf_matrix A \<Longrightarrow> i < N \<Longrightarrow> length (A ! i) = N"
  by (simp add: wf_matrix_def list_all_length)

lemma wf_matrix_upd: "wf_matrix A \<Longrightarrow> wf_matrix (A[i := (A ! i)[j := v]])"
  by (cases "i < N") (auto simp: wf_matrix_def list_all_length nth_list_update)

lemma nth_upd:
  "wf_matrix A \<Longrightarrow> i < N \<Longrightarrow> j < N \<Longrightarrow> i' < N \<Longrightarrow> j' < N \<Longrightarrow>
   A[i := (A ! i)[j := v]] ! i' ! j' = (if i' = i \<and> j' = j then v else A ! i' ! j')"
  by (auto simp: wf_matrix_def list_all_length nth_list_update)

lemma matrix_eqI:
  assumes "wf_matrix A" "wf_matrix B" "\<And>i j. i < N \<Longrightarrow> j < N \<Longrightarrow> A ! i ! j = B ! i ! j"
  shows "A = B"
proof (rule nth_equalityI)
  show "length A = length B" using assms by (simp add: wf_matrix_def)
  fix i assume "i < length A"
  then have i: "i < N" using assms by (simp add: wf_matrix_def)
  show "A ! i = B ! i"
    by (rule nth_equalityI) (use i assms in \<open>auto simp: wf_matrix_row\<close>)
qed

lemma wf_identity: "wf_matrix identity"
  by (simp add: wf_matrix_def identity_def list_all_length)

lemma identity_nth: "i < N \<Longrightarrow> j < N \<Longrightarrow> identity ! i ! j = (if i = j then Finite 1 else Finite 0)"
  by (simp add: identity_def)

subsection \<open>The pivot search\<close>

lemma find_max_row_range:
  assumes "p \<le> m" "m < i" "i \<le> N"
  shows "\<exists>r. find_max_row A p i m = Some r \<and> p \<le> r \<and> r < N"
  using assms
proof (induction "N - i" arbitrary: i m)
  case 0
  then have "i = N" by simp
  with 0 show ?case by (simp add: find_max_row.simps)
next
  case (Suc d)
  have lt: "i < N" "p < N" "m < N" using Suc.hyps(2) Suc.prems by auto
  let ?m' = "if dless (dabs (A ! m ! p)) (dabs (A ! i ! p)) then i else m"
  have step: "find_max_row A p i m = find_max_row A p (i + 1) ?m'"
    using lt by (subst find_max_row.simps) (simp add: getA_def)
  have a: "p \<le> ?m'" "?m' < i + 1" "i + 1 \<le> N" using Suc.prems lt by auto
  have d: "d = N - (i + 1)" using Suc.hyps(2) by simp
  from Suc.hyps(1)[OF d a] show ?case unfolding step .
qed

text \<open>With no NaN in the column, the scan ends on the first row that reaches the maximum.\<close>

lemma find_max_row_spec:
  assumes "p \<le> m" "m < i" "i \<le> N"
    and "\<forall>k. p \<le> k \<and> k < N \<longrightarrow> A ! k ! p \<noteq> NaN"
    and "\<forall>k. p \<le> k \<and> k < i \<longrightarrow> dle (dabs (A ! k ! p)) (dabs (A ! m ! p))"
    and "\<forall>k. p \<le> k \<and> k < m \<longrightarrow> dless (dabs (A ! k ! p)) (dabs (A ! m ! p))"
  shows "\<exists>r. find_max_row A p i m = Some r \<and> p \<le> r \<and> r < N
     \<and> (\<forall>k. p \<le> k \<and> k < N \<longrightarrow> dle (dabs (A ! k ! p)) (dabs (A ! r ! p)))
     \<and> (\<forall>k. p \<le> k \<and> k < r \<longrightarrow> dless (dabs (A ! k ! p)) (dabs (A ! r ! p)))"
  using assms(1,2,3,5,6)
proof (induction "N - i" arbitrary: i m)
  case 0
  then have "i = N" by simp
  with 0 show ?case by (simp add: find_max_row.simps)
next
  case (Suc d)
  have lt: "i < N" "p < N" "m < N" using Suc.hyps(2) Suc.prems by auto
  let ?x = "dabs (A ! i ! p)" and ?y = "dabs (A ! m ! p)"
  let ?m' = "if dless ?y ?x then i else m"
  have nn: "?x \<noteq> NaN" "?y \<noteq> NaN"
    using assms(4) lt Suc.prems(1,2) by (simp_all add: dabs_NaN)
  have step: "find_max_row A p i m = find_max_row A p (i + 1) ?m'"
    using lt by (subst find_max_row.simps) (simp add: getA_def)
  have a: "p \<le> ?m'" "?m' < i + 1" "i + 1 \<le> N" using Suc.prems lt by auto
  have b: "\<forall>k. p \<le> k \<and> k < i + 1 \<longrightarrow> dle (dabs (A ! k ! p)) (dabs (A ! ?m' ! p))"
  proof (intro allI impI)
    fix k assume k: "p \<le> k \<and> k < i + 1"
    show "dle (dabs (A ! k ! p)) (dabs (A ! ?m' ! p))"
    proof (cases "k = i")
      case True
      then show ?thesis using nn by (auto intro: dle_refl not_dless_imp_dle)
    next
      case False
      with k have "k < i" by simp
      with k Suc.prems(4) have "dle (dabs (A ! k ! p)) ?y" by blast
      then show ?thesis by (auto intro: dless_imp_dle dle_dless_trans)
    qed
  qed
  have c: "\<forall>k. p \<le> k \<and> k < ?m' \<longrightarrow> dless (dabs (A ! k ! p)) (dabs (A ! ?m' ! p))"
  proof (intro allI impI)
    fix k assume k: "p \<le> k \<and> k < ?m'"
    show "dless (dabs (A ! k ! p)) (dabs (A ! ?m' ! p))"
    proof (cases "dless ?y ?x")
      case True
      with k have "k < i" by simp
      with k Suc.prems(4) have "dle (dabs (A ! k ! p)) ?y" by blast
      with True show ?thesis by (auto intro: dle_dless_trans)
    next
      case False
      with k Suc.prems(5) show ?thesis by simp
    qed
  qed
  have d: "d = N - (i + 1)" using Suc.hyps(2) by simp
  from Suc.hyps(1)[OF d a b c]
  show ?case unfolding step .
qed

lemma select_pivot_range:
  assumes "p < N"
  shows "\<exists>r. find_max_row A p (p + 1) p = Some r \<and> p \<le> r \<and> r < N"
  using assms by (intro find_max_row_range) auto

lemma select_pivot:
  assumes "p < N" "\<forall>k. p \<le> k \<and> k < N \<longrightarrow> A ! k ! p \<noteq> NaN"
  shows "\<exists>r. find_max_row A p (p + 1) p = Some r \<and> p \<le> r \<and> r < N
     \<and> (\<forall>k. p \<le> k \<and> k < N \<longrightarrow> dle (dabs (A ! k ! p)) (dabs (A ! r ! p)))
     \<and> (\<forall>k. p \<le> k \<and> k < r \<longrightarrow> dless (dabs (A ! k ! p)) (dabs (A ! r ! p)))"
proof -
  have "dabs (A ! p ! p) \<noteq> NaN" using assms by (simp add: dabs_NaN)
  then have "\<forall>k. p \<le> k \<and> k < p + 1 \<longrightarrow> dle (dabs (A ! k ! p)) (dabs (A ! p ! p))"
    by (auto simp: le_less_Suc_eq intro: dle_refl)
  then show ?thesis
    using assms by (intro find_max_row_spec) auto
qed

subsection \<open>The row exchange\<close>

lemma swap_ranges_spec:
  assumes "wf_matrix A" "p < N" "q < N" "p \<noteq> q"
  shows "\<exists>A'. swap_ranges A p q k = Some A' \<and> wf_matrix A'
     \<and> (\<forall>i<N. \<forall>j<N. A' ! i ! j =
          (if k \<le> j \<and> i = p then A ! q ! j else if k \<le> j \<and> i = q then A ! p ! j else A ! i ! j))"
  using assms(1)
proof (induction "N - k" arbitrary: k A)
  case 0
  then have "\<not> k < N" by simp
  with 0 show ?case by (subst swap_ranges.simps) auto
next
  case (Suc d)
  have k: "k < N" using Suc.hyps(2) by simp
  define A1 where "A1 = A[p := (A ! p)[k := A ! q ! k]]"
  define A2 where "A2 = A1[q := (A1 ! q)[k := A ! p ! k]]"
  have wf1: "wf_matrix A1" unfolding A1_def using Suc.prems by (rule wf_matrix_upd)
  have wf2: "wf_matrix A2" unfolding A2_def using wf1 by (rule wf_matrix_upd)
  have step: "swap_ranges A p q k = swap_ranges A2 p q (k + 1)"
    using k assms(2,3) by (subst swap_ranges.simps) (simp add: getA_def setA_def A1_def A2_def)
  have A2: "A2 ! i ! j = (if i = q \<and> j = k then A ! p ! k else if i = p \<and> j = k then A ! q ! k else A ! i ! j)"
    if "i < N" "j < N" for i j
    using that k assms(2,3) wf1 Suc.prems by (simp add: A2_def A1_def nth_upd)
  have d: "d = N - (k + 1)" using Suc.hyps(2) by simp
  from Suc.hyps(1)[OF d wf2] obtain A' where A': "swap_ranges A2 p q (k + 1) = Some A'" "wf_matrix A'"
    "\<forall>i<N. \<forall>j<N. A' ! i ! j =
          (if k + 1 \<le> j \<and> i = p then A2 ! q ! j else if k + 1 \<le> j \<and> i = q then A2 ! p ! j else A2 ! i ! j)"
    by blast
  have "A' ! i ! j = (if k \<le> j \<and> i = p then A ! q ! j else if k \<le> j \<and> i = q then A ! p ! j else A ! i ! j)"
    if "i < N" "j < N" for i j
    using that A'(3) assms(2,3,4) by (auto simp: A2)
  with A'(1,2) show ?case unfolding step by blast
qed

lemma swap_ranges_rows:
  assumes "wf_matrix A" "p < N" "q < N" "p \<noteq> q"
  shows "swap_ranges A p q 0 = Some (A[p := A ! q, q := A ! p])"
proof -
  from swap_ranges_spec[OF assms, of 0] obtain A' where A': "swap_ranges A p q 0 = Some A'" "wf_matrix A'"
    "\<forall>i<N. \<forall>j<N. A' ! i ! j = (if i = p then A ! q ! j else if i = q then A ! p ! j else A ! i ! j)"
    by auto
  have len: "length A = N" using assms(1) by (simp add: wf_matrix_def)
  have wf': "wf_matrix (A[p := A ! q, q := A ! p])"
    using assms by (auto simp: wf_matrix_def list_all_length nth_list_update)
  have "A' = A[p := A ! q, q := A ! p]"
  proof (rule matrix_eqI[OF A'(2) wf'])
    fix i j assume "i < N" "j < N"
    then show "A' ! i ! j = A[p := A ! q, q := A ! p] ! i ! j"
      using A'(3) assms len by (auto simp: nth_list_update)
  qed
  with A'(1) show ?thesis by simp
qed

lemma swap_b_spec:
  assumes "p < N" "q < N"
  shows "swap_b b p q = Some (b[p := b ! q, q := b ! p])"
  using assms by (simp add: swap_b_def getb_def setb_def)

subsection \<open>The elimination of a column\<close>

lemma elim_cols_spec:
  assumes "wf_matrix A" "p < N" "i < N" "i \<noteq> p"
  shows "\<exists>A'. elim_cols A p i f j = Some A' \<and> wf_matrix A'
     \<and> (\<forall>r<N. \<forall>c<N. A' ! r ! c =
          (if r = i \<and> j \<le> c then dminus (A ! i ! c) (dtimes f (A ! p ! c)) else A ! r ! c))"
  using assms(1)
proof (induction "N - j" arbitrary: j A)
  case 0
  then have "\<not> j < N" by simp
  with 0 show ?case by (subst elim_cols.simps) auto
next
  case (Suc d)
  have j: "j < N" using Suc.hyps(2) by simp
  define A1 where "A1 = A[i := (A ! i)[j := dminus (A ! i ! j) (dtimes f (A ! p ! j))]]"
  have wf1: "wf_matrix A1" unfolding A1_def using Suc.prems by (rule wf_matrix_upd)
  have step: "elim_cols A p i f j = elim_cols A1 p i f (j + 1)"
    using j assms(2,3) by (subst elim_cols.simps) (simp add: getA_def setA_def A1_def)
  have A1: "A1 ! r ! c = (if r = i \<and> c = j then dminus (A ! i ! j) (dtimes f (A ! p ! j)) else A ! r ! c)"
    if "r < N" "c < N" for r c
    using that j assms(2,3) Suc.prems by (simp add: A1_def nth_upd)
  have d: "d = N - (j + 1)" using Suc.hyps(2) by simp
  from Suc.hyps(1)[OF d wf1] obtain A' where A': "elim_cols A1 p i f (j + 1) = Some A'" "wf_matrix A'"
    "\<forall>r<N. \<forall>c<N. A' ! r ! c =
          (if r = i \<and> j + 1 \<le> c then dminus (A1 ! i ! c) (dtimes f (A1 ! p ! c)) else A1 ! r ! c)"
    by blast
  have "A' ! r ! c = (if r = i \<and> j \<le> c then dminus (A ! i ! c) (dtimes f (A ! p ! c)) else A ! r ! c)"
    if "r < N" "c < N" for r c
    using that A'(3) assms(2,3,4) by (auto simp: A1)
  with A'(1,2) show ?case unfolding step by blast
qed

text \<open>Row \<open>r\<close> of the matrix and entry \<open>r\<close> of the vector after the elimination of column \<open>p\<close>.\<close>

lemma elim_rows_spec:
  assumes "wf_matrix A" "wf_vector b" "p < N" "p < i" "A ! p ! p \<noteq> Finite 0"
  shows "\<exists>A' b'. elim_rows A b p i = Some (A', b') \<and> wf_matrix A' \<and> wf_vector b'
     \<and> (\<forall>r<N. \<forall>c<N. A' ! r ! c =
          (if i \<le> r
           then (if p < c
                 then dminus (A ! r ! c) (dtimes (ddivide (A ! r ! p) (A ! p ! p)) (A ! p ! c))
                 else if c = p then Finite 0 else A ! r ! c)
           else A ! r ! c))
     \<and> (\<forall>r<N. b' ! r =
          (if i \<le> r then dminus (b ! r) (dtimes (ddivide (A ! r ! p) (A ! p ! p)) (b ! p))
           else b ! r))"
  using assms(1,2,4,5)
proof (induction "N - i" arbitrary: i A b)
  case 0
  then have "\<not> i < N" by simp
  with 0 show ?case by (subst elim_rows.simps) auto
next
  case (Suc d)
  have i: "i < N" "i \<noteq> p" using Suc.hyps(2) Suc.prems(3) by auto
  note p = assms(3)
  define f where "f = ddivide (A ! i ! p) (A ! p ! p)"
  define b1 where "b1 = b[i := dminus (b ! i) (dtimes f (b ! p))]"
  from elim_cols_spec[OF Suc.prems(1) p i, of f "p + 1"]
  obtain A1 where A1: "elim_cols A p i f (p + 1) = Some A1" "wf_matrix A1"
    "\<forall>r<N. \<forall>c<N. A1 ! r ! c =
       (if r = i \<and> p + 1 \<le> c then dminus (A ! i ! c) (dtimes f (A ! p ! c)) else A ! r ! c)"
    by blast
  define A2 where "A2 = A1[i := (A1 ! i)[p := Finite 0]]"
  have wf2: "wf_matrix A2" unfolding A2_def using A1(2) by (rule wf_matrix_upd)
  have wfb1: "wf_vector b1" using Suc.prems(2) by (simp add: b1_def wf_vector_def)
  have step: "elim_rows A b p i = elim_rows A2 b1 p (i + 1)"
    using i p Suc.prems(4) A1(1)
    by (subst elim_rows.simps) (simp add: getA_def setA_def getb_def setb_def fdiv_def f_def b1_def A2_def)
  have A2: "A2 ! r ! c =
      (if r = i then (if p < c then dminus (A ! i ! c) (dtimes f (A ! p ! c))
                      else if c = p then Finite 0 else A ! i ! c)
       else A ! r ! c)"
    if "r < N" "c < N" for r c
    using that i p A1(2,3) by (auto simp: A2_def nth_upd)
  have b1: "b1 ! r = (if r = i then dminus (b ! i) (dtimes f (b ! p)) else b ! r)" if "r < N" for r
    using that Suc.prems(2) by (simp add: b1_def wf_vector_def)
  have pp: "A2 ! p ! p = A ! p ! p" using A2[OF p p] i by simp
  have d: "d = N - (i + 1)" using Suc.hyps(2) by simp
  have lt: "p < i + 1" using Suc.prems(3) by simp
  have nz: "A2 ! p ! p \<noteq> Finite 0" using pp Suc.prems(4) by simp
  from Suc.hyps(1)[OF d wf2 wfb1 lt nz]
  obtain A' b' where r: "elim_rows A2 b1 p (i + 1) = Some (A', b')" "wf_matrix A'" "wf_vector b'"
    "\<forall>r<N. \<forall>c<N. A' ! r ! c =
          (if i + 1 \<le> r
           then (if p < c
                 then dminus (A2 ! r ! c) (dtimes (ddivide (A2 ! r ! p) (A2 ! p ! p)) (A2 ! p ! c))
                 else if c = p then Finite 0 else A2 ! r ! c)
           else A2 ! r ! c)"
    "\<forall>r<N. b' ! r =
          (if i + 1 \<le> r then dminus (b1 ! r) (dtimes (ddivide (A2 ! r ! p) (A2 ! p ! p)) (b1 ! p))
           else b1 ! r)"
    by blast
  have A': "A' ! r ! c =
      (if i \<le> r
       then (if p < c
             then dminus (A ! r ! c) (dtimes (ddivide (A ! r ! p) (A ! p ! p)) (A ! p ! c))
             else if c = p then Finite 0 else A ! r ! c)
       else A ! r ! c)" if "r < N" "c < N" for r c
  proof (cases "i + 1 \<le> r")
    case True
    then have "r \<noteq> i" by simp
    with True that r(4) i p show ?thesis by (simp add: A2)
  next
    case False
    with that r(4) have "A' ! r ! c = A2 ! r ! c" by simp
    moreover have "r = i \<or> r < i" using False by auto
    ultimately show ?thesis using that by (auto simp: A2 f_def)
  qed
  have b': "b' ! r =
      (if i \<le> r then dminus (b ! r) (dtimes (ddivide (A ! r ! p) (A ! p ! p)) (b ! p))
       else b ! r)" if "r < N" for r
  proof (cases "i + 1 \<le> r")
    case True
    then have "r \<noteq> i" by simp
    with True that r(5) i p show ?thesis by (simp add: A2 b1)
  next
    case False
    with that r(5) have "b' ! r = b1 ! r" by simp
    moreover have "r = i \<or> r < i" using False by auto
    ultimately show ?thesis using that by (auto simp: b1 f_def)
  qed
  from r(1,2,3) A' b' show ?case unfolding step by blast
qed

subsection \<open>One pivot step\<close>

lemma wf_matrix_swap: "wf_matrix A \<Longrightarrow> p < N \<Longrightarrow> r < N \<Longrightarrow> wf_matrix (A[p := A ! r, r := A ! p])"
  by (auto simp: wf_matrix_def list_all_length nth_list_update)

lemma pivot_step_spec:
  assumes "wf_matrix A" "wf_vector b" "p < N"
  shows "\<exists>r. find_max_row A p (p + 1) p = Some r \<and> p \<le> r \<and> r < N
     \<and> (if dless (dabs (A ! r ! p)) threshold then pivot_step A b p = Some (Returned_false A b)
        else \<exists>A' b'. pivot_step A b p = Some (Continue A' b') \<and> step_effect A b p r A' b')"
proof -
  from select_pivot_range[OF assms(3)] obtain r
    where r: "find_max_row A p (p + 1) p = Some r" "p \<le> r" "r < N"
    by blast
  let ?As = "A[p := A ! r, r := A ! p]" and ?bs = "b[p := b ! r, r := b ! p]"
  have len: "length A = N" "length b = N" using assms by (simp_all add: wf_matrix_def wf_vector_def)
  have sw: "swap_rows A b p r = Some (?As, ?bs)"
    using assms(1,3) r(3) by (cases "r = p") (simp_all add: swap_rows_def swap_ranges_rows swap_b_spec)
  have Asp: "?As ! p = A ! r" using len assms(3) r(3) by (simp add: nth_list_update)
  have bsp: "?bs ! p = b ! r" using len assms(3) r(3) by (simp add: nth_list_update)
  show ?thesis
  proof (cases "dless (dabs (A ! r ! p)) threshold")
    case True
    then have "pivot_step A b p = Some (Returned_false A b)"
      using r(1,3) assms(3) by (simp add: pivot_step_def getA_def)
    with True r show ?thesis by auto
  next
    case False
    then have nz: "?As ! p ! p \<noteq> Finite 0"
      unfolding Asp by (rule not_below_threshold_nonzero)
    have wfs: "wf_matrix ?As" "wf_vector ?bs"
      using assms r(3) by (simp_all add: wf_matrix_swap wf_vector_def)
    from elim_rows_spec[OF wfs assms(3) _ nz, of "p + 1"]
    obtain A' b' where e: "elim_rows ?As ?bs p (p + 1) = Some (A', b')" "wf_matrix A'" "wf_vector b'"
      "\<forall>i<N. \<forall>c<N. A' ! i ! c =
          (if p + 1 \<le> i
           then (if p < c
                 then dminus (?As ! i ! c) (dtimes (ddivide (?As ! i ! p) (?As ! p ! p)) (?As ! p ! c))
                 else if c = p then Finite 0 else ?As ! i ! c)
           else ?As ! i ! c)"
      "\<forall>i<N. b' ! i =
          (if p + 1 \<le> i then dminus (?bs ! i) (dtimes (ddivide (?As ! i ! p) (?As ! p ! p)) (?bs ! p))
           else ?bs ! i)"
      by auto
    have ps: "pivot_step A b p = Some (Continue A' b')"
      using r(1,3) assms(3) False sw e(1) by (simp add: pivot_step_def getA_def)
    have "\<forall>i<N. \<forall>c<N. A' ! i ! c =
          (if p < i
           then (if p < c
                 then dminus (?As ! i ! c) (dtimes (ddivide (?As ! i ! p) (A ! r ! p)) (A ! r ! c))
                 else if c = p then Finite 0 else ?As ! i ! c)
           else ?As ! i ! c)"
      using e(4) unfolding Asp by (simp add: Suc_le_eq)
    moreover have "\<forall>i<N. b' ! i =
          (if p < i then dminus (?bs ! i) (dtimes (ddivide (?As ! i ! p) (A ! r ! p)) (b ! r))
           else ?bs ! i)"
      using e(5) unfolding Asp bsp by (simp add: Suc_le_eq)
    ultimately have "step_effect A b p r A' b'"
      using e(2,3) by (simp add: step_effect_def)
    with False r ps show ?thesis by auto
  qed
qed

lemma swap_nth:
  "length xs = N \<Longrightarrow> p < N \<Longrightarrow> r < N \<Longrightarrow> i < N \<Longrightarrow>
   xs[p := xs ! r, r := xs ! p] ! i = (if i = r then xs ! p else if i = p then xs ! r else xs ! i)"
  by (auto simp: nth_list_update)

lemma step_effect_A:
  assumes "step_effect A b p r A' b'" "wf_matrix A" "p < N" "r < N" "i < N" "c < N"
  shows "A' ! i ! c =
     (let row = (if i = r then A ! p else if i = p then A ! r else A ! i)
      in if p < i
         then (if p < c then dminus (row ! c) (dtimes (ddivide (row ! p) (A ! r ! p)) (A ! r ! c))
               else if c = p then Finite 0 else row ! c)
         else row ! c)"
proof -
  have len: "length A = N" using assms(2) by (simp add: wf_matrix_def)
  have "A' ! i ! c =
          (if p < i
           then (if p < c
                 then dminus (A[p := A ! r, r := A ! p] ! i ! c)
                        (dtimes (ddivide (A[p := A ! r, r := A ! p] ! i ! p) (A ! r ! p))
                           (A ! r ! c))
                 else if c = p then Finite 0 else A[p := A ! r, r := A ! p] ! i ! c)
           else A[p := A ! r, r := A ! p] ! i ! c)"
    using assms(1,5,6) by (simp add: step_effect_def)
  then show ?thesis
    unfolding swap_nth[OF len assms(3,4,5)] Let_def .
qed

lemma step_effect_b:
  assumes "step_effect A b p r A' b'" "wf_matrix A" "wf_vector b" "p < N" "r < N" "i < N"
  shows "b' ! i =
     (let row = (if i = r then A ! p else if i = p then A ! r else A ! i);
          bi = (if i = r then b ! p else if i = p then b ! r else b ! i)
      in if p < i then dminus bi (dtimes (ddivide (row ! p) (A ! r ! p)) (b ! r)) else bi)"
proof -
  have len: "length A = N" "length b = N" using assms(2,3) by (simp_all add: wf_matrix_def wf_vector_def)
  have "b' ! i =
          (if p < i
           then dminus (b[p := b ! r, r := b ! p] ! i)
                  (dtimes (ddivide (A[p := A ! r, r := A ! p] ! i ! p) (A ! r ! p)) (b ! r))
           else b[p := b ! r, r := b ! p] ! i)"
    using assms(1,6) by (simp add: step_effect_def)
  then show ?thesis
    unfolding swap_nth[OF len(1) assms(4,5,6)] swap_nth[OF len(2) assms(4,5,6)] Let_def .
qed

lemma pivot_step_Returned_false:
  assumes "wf_matrix A" "wf_vector b" "p < N" "pivot_step A b p = Some (Returned_false A' b')"
  shows "A' = A \<and> b' = b
     \<and> (\<exists>r. find_max_row A p (p + 1) p = Some r \<and> r < N \<and> dless (dabs (A ! r ! p)) threshold)"
  using pivot_step_spec[OF assms(1-3)] assms(4) by (auto split: if_splits)

lemma pivot_step_Continue:
  assumes "wf_matrix A" "wf_vector b" "p < N" "pivot_step A b p = Some (Continue A' b')"
  shows "\<exists>r. find_max_row A p (p + 1) p = Some r \<and> p \<le> r \<and> r < N
     \<and> \<not> dless (dabs (A ! r ! p)) threshold \<and> step_effect A b p r A' b'"
  using pivot_step_spec[OF assms(1-3)] assms(4) by (auto split: if_splits)

lemma pivot_step_total:
  assumes "wf_matrix A" "wf_vector b" "p < N"
  shows "pivot_step A b p = Some (Returned_false A b)
     \<or> (\<exists>A' b'. pivot_step A b p = Some (Continue A' b') \<and> wf_matrix A' \<and> wf_vector b')"
  using pivot_step_spec[OF assms] by (auto simp: step_effect_def split: if_splits)

text \<open>A pivot step leaves the rows above the pivot row as they are.\<close>

lemma pivot_step_rows_above:
  assumes "wf_matrix A" "wf_vector b" "p < N" "pivot_step A b p = Some (Continue A' b')" "i < p"
  shows "A' ! i = A ! i \<and> b' ! i = b ! i"
proof -
  from pivot_step_Continue[OF assms(1-4)] obtain r where r: "p \<le> r" "r < N"
    and eff: "step_effect A b p r A' b'"
    by blast
  have i: "i < N" "i \<noteq> p" "i \<noteq> r" using assms(3,5) r(1) by auto
  have wf': "wf_matrix A'" using eff by (simp add: step_effect_def)
  have "A' ! i = A ! i"
  proof (rule nth_equalityI)
    show "length (A' ! i) = length (A ! i)" using i wf' assms(1) by (simp add: wf_matrix_row)
    fix c assume "c < length (A' ! i)"
    then have "c < N" using i wf' by (simp add: wf_matrix_row)
    then show "A' ! i ! c = A ! i ! c"
      using step_effect_A[OF eff assms(1,3) r(2) i(1)] i assms(5) by (simp add: Let_def)
  qed
  moreover have "b' ! i = b ! i"
    using step_effect_b[OF eff assms(1,2,3) r(2) i(1)] i assms(5) by (simp add: Let_def)
  ultimately show ?thesis ..
qed

text \<open>
  It leaves in place \<open>p\<close> the row its scan selected, whose entry on the diagonal has
  passed the test of line 33.
\<close>

lemma pivot_step_pivot_row:
  assumes "wf_matrix A" "wf_vector b" "p < N" "pivot_step A b p = Some (Continue A' b')"
  shows "\<exists>r. find_max_row A p (p + 1) p = Some r \<and> p \<le> r \<and> r < N
     \<and> \<not> dless (dabs (A ! r ! p)) threshold
     \<and> (\<forall>c<N. A' ! p ! c = A ! r ! c) \<and> b' ! p = b ! r"
proof -
  from pivot_step_Continue[OF assms(1-4)] obtain r
    where r: "find_max_row A p (p + 1) p = Some r" "p \<le> r" "r < N"
      "\<not> dless (dabs (A ! r ! p)) threshold"
    and eff: "step_effect A b p r A' b'"
    by blast
  have "A' ! p ! c = A ! r ! c" if "c < N" for c
    using step_effect_A[OF eff assms(1,3) r(3) assms(3) that] by (simp add: Let_def)
  moreover have "b' ! p = b ! r"
    using step_effect_b[OF eff assms(1,2,3) r(3) assms(3)] by (simp add: Let_def)
  ultimately show ?thesis using r by blast
qed

lemma pivot_step_diagonal:
  assumes "wf_matrix A" "wf_vector b" "p < N" "pivot_step A b p = Some (Continue A' b')"
  shows "\<not> dless (dabs (A' ! p ! p)) threshold"
  using pivot_step_pivot_row[OF assms] assms(3) by auto

text \<open>It zeroes column \<open>p\<close> below the diagonal and keeps the zeros of the columns before.\<close>

lemma pivot_step_triangular:
  assumes "wf_matrix A" "wf_vector b" "p < N" "pivot_step A b p = Some (Continue A' b')"
    and T: "\<forall>c<p. \<forall>i<N. c < i \<longrightarrow> A ! i ! c = Finite 0"
  shows "\<forall>c<Suc p. \<forall>i<N. c < i \<longrightarrow> A' ! i ! c = Finite 0"
proof (intro allI impI)
  fix c i assume c: "c < Suc p" and i: "i < N" and ci: "c < i"
  from pivot_step_Continue[OF assms(1-4)] obtain r where r: "p \<le> r" "r < N"
    and eff: "step_effect A b p r A' b'"
    by blast
  have cN: "c < N" using c assms(3) by simp
  note A' = step_effect_A[OF eff assms(1,3) r(2) i cN]
  show "A' ! i ! c = Finite 0"
  proof (cases "c = p")
    case True
    with ci A' show ?thesis by (simp add: Let_def)
  next
    case False
    with c have cp: "c < p" by simp
    then show ?thesis
      using A' T ci i r assms(3) by (auto simp: Let_def)
  qed
qed

subsection \<open>The elimination loop\<close>

lemma forward_elimination_Suc_Continue:
  assumes "forward_elimination A b (Suc n) = Some (Continue A' b')"
  shows "\<exists>A1 b1. forward_elimination A b n = Some (Continue A1 b1)
     \<and> pivot_step A1 b1 n = Some (Continue A' b')"
  using assms by (auto split: bind_splits loop_state.splits)

lemma forward_elimination_total:
  assumes "wf_matrix A" "wf_vector b" "n \<le> N"
  shows "\<exists>A' b'. wf_matrix A' \<and> wf_vector b'
     \<and> (forward_elimination A b n = Some (Returned_false A' b')
        \<or> forward_elimination A b n = Some (Continue A' b'))"
  using assms(3)
proof (induction n)
  case 0
  with assms show ?case by auto
next
  case (Suc n)
  then obtain A1 b1 where wf1: "wf_matrix A1" "wf_vector b1"
    and s: "forward_elimination A b n = Some (Returned_false A1 b1)
        \<or> forward_elimination A b n = Some (Continue A1 b1)"
    by auto
  from s show ?case
  proof
    assume "forward_elimination A b n = Some (Returned_false A1 b1)"
    with wf1 show ?thesis by auto
  next
    assume c: "forward_elimination A b n = Some (Continue A1 b1)"
    have "n < N" using Suc.prems by simp
    from pivot_step_total[OF wf1 this] c wf1 show ?thesis by auto
  qed
qed

lemma forward_elimination_invariant:
  assumes "wf_matrix A" "wf_vector b" "n \<le> N" "forward_elimination A b n = Some (Continue A' b')"
  shows "wf_matrix A' \<and> wf_vector b'
     \<and> (\<forall>c<n. \<forall>i<N. c < i \<longrightarrow> A' ! i ! c = Finite 0)
     \<and> (\<forall>i<n. \<not> dless (dabs (A' ! i ! i)) threshold)"
  using assms(3,4)
proof (induction n arbitrary: A' b')
  case 0
  with assms show ?case by simp
next
  case (Suc n)
  from forward_elimination_Suc_Continue[OF Suc.prems(2)] obtain A1 b1
    where f: "forward_elimination A b n = Some (Continue A1 b1)"
      and ps: "pivot_step A1 b1 n = Some (Continue A' b')"
    by blast
  have n: "n < N" "n \<le> N" using Suc.prems(1) by simp_all
  from Suc.IH[OF n(2) f] have wf1: "wf_matrix A1" "wf_vector b1"
    and T: "\<forall>c<n. \<forall>i<N. c < i \<longrightarrow> A1 ! i ! c = Finite 0"
    and D: "\<forall>i<n. \<not> dless (dabs (A1 ! i ! i)) threshold"
    by auto
  have wf': "wf_matrix A'" "wf_vector b'"
    using pivot_step_total[OF wf1 n(1)] ps by auto
  have D': "\<forall>i<Suc n. \<not> dless (dabs (A' ! i ! i)) threshold"
  proof (intro allI impI)
    fix i assume "i < Suc n"
    then consider "i < n" | "i = n" by linarith
    then show "\<not> dless (dabs (A' ! i ! i)) threshold"
    proof cases
      case 1
      with pivot_step_rows_above[OF wf1 n(1) ps] D show ?thesis by simp
    next
      case 2
      with pivot_step_diagonal[OF wf1 n(1) ps] show ?thesis by simp
    qed
  qed
  from wf' pivot_step_triangular[OF wf1 n(1) ps T] D'
  show ?case by blast
qed


subsection \<open>Back substitution\<close>

lemma subtract_solved_total:
  assumes "wf_vector b" "i < N" "i < j"
  shows "\<exists>b'. subtract_solved A b i j = Some b' \<and> wf_vector b'
     \<and> (\<forall>k<N. k \<noteq> i \<longrightarrow> b' ! k = b ! k)"
  using assms(1,3)
proof (induction "N - j" arbitrary: j b)
  case 0
  then have "\<not> j < N" by simp
  with 0 show ?case by (subst subtract_solved.simps) auto
next
  case (Suc d)
  have j: "j < N" using Suc.hyps(2) by simp
  have len: "length b = N" using Suc.prems(1) by (simp add: wf_vector_def)
  define b1 where "b1 = b[i := dminus (b ! i) (dtimes (A ! i ! j) (b ! j))]"
  have wf1: "wf_vector b1" using len by (simp add: b1_def wf_vector_def)
  have step: "subtract_solved A b i j = subtract_solved A b1 i (j + 1)"
    using j assms(2) by (subst subtract_solved.simps) (simp add: getA_def getb_def setb_def b1_def)
  have b1: "b1 ! k = b ! k" if "k < N" "k \<noteq> i" for k
    using that len by (simp add: b1_def)
  have d: "d = N - (j + 1)" using Suc.hyps(2) by simp
  have lt: "i < j + 1" using Suc.prems(2) by simp
  from Suc.hyps(1)[OF d wf1 lt] obtain b' where b': "subtract_solved A b1 i (j + 1) = Some b'"
    "wf_vector b'" "\<forall>k<N. k \<noteq> i \<longrightarrow> b' ! k = b1 ! k"
    by blast
  from b'(3) b1 have "\<forall>k<N. k \<noteq> i \<longrightarrow> b' ! k = b ! k" by simp
  with b'(1,2) show ?case unfolding step by blast
qed

text \<open>Where every term subtracted leaves entry \<open>i\<close> as it is, the vector stays as it is.\<close>

lemma subtract_solved_unchanged:
  assumes "wf_vector b" "i < N" "i < j"
    and "\<forall>c<N. j \<le> c \<longrightarrow> dminus (b ! i) (dtimes (A ! i ! c) (b ! c)) = b ! i"
  shows "subtract_solved A b i j = Some b"
  using assms(3,4)
proof (induction "N - j" arbitrary: j)
  case 0
  then have "\<not> j < N" by simp
  then show ?case by (subst subtract_solved.simps) auto
next
  case (Suc d)
  have j: "j < N" using Suc.hyps(2) by simp
  have same: "dminus (b ! i) (dtimes (A ! i ! j) (b ! j)) = b ! i"
    using Suc.prems(2) j by simp
  have step: "subtract_solved A b i j = subtract_solved A b i (j + 1)"
    using j assms(2) same by (subst subtract_solved.simps) (simp add: getA_def getb_def setb_def)
  have d: "d = N - (j + 1)" using Suc.hyps(2) by simp
  have lt: "i < j + 1" using Suc.prems(1) by simp
  have "\<forall>c<N. j + 1 \<le> c \<longrightarrow> dminus (b ! i) (dtimes (A ! i ! c) (b ! c)) = b ! i"
    using Suc.prems(2) by simp
  from Suc.hyps(1)[OF d lt this] show ?case unfolding step .
qed

lemma back_substitution_total:
  assumes "wf_vector b" "n \<le> N" "\<forall>i<n. A ! i ! i \<noteq> Finite 0"
  shows "\<exists>x. back_substitution A b n = Some x \<and> wf_vector x"
  using assms
proof (induction n arbitrary: b)
  case 0
  then show ?case by simp
next
  case (Suc i)
  have i: "i < N" "i \<le> N" using Suc.prems(2) by simp_all
  have nz: "A ! i ! i \<noteq> Finite 0" using Suc.prems(3) by simp
  from subtract_solved_total[OF Suc.prems(1) i(1), of "i + 1" A]
  obtain b1 where b1: "subtract_solved A b i (i + 1) = Some b1" "wf_vector b1"
    by auto
  define b2 where "b2 = b1[i := ddivide (b1 ! i) (A ! i ! i)]"
  have wf2: "wf_vector b2" using b1(2) by (simp add: b2_def wf_vector_def)
  have step: "back_substitution A b (Suc i) = back_substitution A b2 i"
    using b1(1) i nz by (simp add: getb_def getA_def fdiv_def setb_def b2_def)
  have nz': "\<forall>k<i. A ! k ! k \<noteq> Finite 0" using Suc.prems(3) by simp
  from Suc.IH[OF wf2 i(2) nz'] show ?case unfolding step .
qed

subsection \<open>The two ways out of the solver\<close>

lemma solveMatrix_True:
  assumes "solveMatrix A b = Some (True, U, x)"
  shows "\<exists>c. forward_elimination A b N = Some (Continue U c) \<and> back_substitution U c N = Some x"
  using assms by (auto simp: solveMatrix_def split: bind_splits loop_state.splits)

lemma solveMatrix_False:
  assumes "solveMatrix A b = Some (False, A', b')"
  shows "forward_elimination A b N = Some (Returned_false A' b')"
  using assms by (auto simp: solveMatrix_def split: bind_splits loop_state.splits)

lemma reaches_back_substitution:
  assumes "wf_matrix A" "wf_vector b" "forward_elimination A b N = Some (Continue U c)"
  shows "\<exists>x. back_substitution U c N = Some x \<and> wf_vector x"
proof -
  from forward_elimination_invariant[OF assms(1,2) le_refl assms(3)]
  have wf: "wf_vector c" and D: "\<forall>i<N. \<not> dless (dabs (U ! i ! i)) threshold"
    by auto
  have nz: "\<forall>i<N. U ! i ! i \<noteq> Finite 0" using D not_below_threshold_nonzero by blast
  from back_substitution_total[OF wf le_refl nz] show ?thesis .
qed

lemma forward_elimination_Returned_false_stays:
  assumes "forward_elimination A b n = Some (Returned_false A' b')"
  shows "forward_elimination A b (n + k) = Some (Returned_false A' b')"
  using assms by (induction k) simp_all

lemma forward_elimination_Returned_false_origin:
  assumes "wf_matrix A" "wf_vector b" "n \<le> N"
    and "forward_elimination A b n = Some (Returned_false A' b')"
  shows "\<exists>p<n. forward_elimination A b p = Some (Continue A' b')
     \<and> (\<exists>m. find_max_row A' p (p + 1) p = Some m \<and> m < N
            \<and> dless (dabs (A' ! m ! p)) threshold)"
  using assms(3,4)
proof (induction n)
  case 0
  then show ?case by simp
next
  case (Suc n)
  have n: "n < N" "n \<le> N" using Suc.prems(1) by simp_all
  from forward_elimination_total[OF assms(1,2) n(2)] obtain A1 b1
    where wf1: "wf_matrix A1" "wf_vector b1"
      and s: "forward_elimination A b n = Some (Returned_false A1 b1)
        \<or> forward_elimination A b n = Some (Continue A1 b1)"
    by blast
  from s show ?case
  proof
    assume r: "forward_elimination A b n = Some (Returned_false A1 b1)"
    with Suc.prems(2) have "forward_elimination A b n = Some (Returned_false A' b')" by simp
    from Suc.IH[OF n(2) this] show ?thesis by (auto simp: less_Suc_eq)
  next
    assume c: "forward_elimination A b n = Some (Continue A1 b1)"
    with Suc.prems(2) have "pivot_step A1 b1 n = Some (Returned_false A' b')" by simp
    from pivot_step_Returned_false[OF wf1 n(1) this] c show ?thesis by auto
  qed
qed

lemma small_pivot_returns:
  assumes "wf_matrix A" "wf_vector b" "p < N"
    and "forward_elimination A b p = Some (Continue Ap bp)"
    and "find_max_row Ap p (p + 1) p = Some m" "dless (dabs (Ap ! m ! p)) threshold"
  shows "forward_elimination A b N = Some (Returned_false Ap bp)"
proof -
  from select_pivot_range[OF assms(3), of Ap] assms(5) have "m < N" by auto
  then have "pivot_step Ap bp p = Some (Returned_false Ap bp)"
    using assms(3,5,6) by (simp add: pivot_step_def getA_def)
  with assms(4) have "forward_elimination A b (Suc p) = Some (Returned_false Ap bp)" by simp
  from forward_elimination_Returned_false_stays[OF this, of "N - Suc p"] assms(3)
  show ?thesis by simp
qed

subsection \<open>The solver on the identity matrix\<close>

lemma finite_doubleE:
  assumes "finite_double d"
  obtains x where "d = Finite x" "rnd x = Finite x"
  using assms by (cases d) (auto simp: finite_double_def)

lemma finite_double_arith:
  assumes "finite_double d"
  shows "dtimes (Finite 0) d = Finite 0" "dminus d (Finite 0) = d" "ddivide d (Finite 1) = d"
  using assms by (auto elim!: finite_doubleE)

lemma finite_double_zero_one: "finite_double (Finite 0)" "finite_double (Finite 1)"
  by (simp_all add: finite_double_def)

lemma pivot_step_identity:
  assumes "wf_vector v" "list_all finite_double v" "p < N"
  shows "pivot_step identity v p = Some (Continue identity v)"
proof -
  note wfI = wf_identity
  have len: "length v = N" using assms(1) by (simp add: wf_vector_def)
  have fin: "finite_double (v ! i)" if "i < N" for i
    using assms(2) that len by (simp add: list_all_length)
  have nonan: "\<forall>k. p \<le> k \<and> k < N \<longrightarrow> identity ! k ! p \<noteq> NaN"
    using assms(3) by (simp add: identity_nth)
  from select_pivot[OF assms(3) nonan] obtain r
    where r: "find_max_row identity p (p + 1) p = Some r" "p \<le> r" "r < N"
      and mx: "\<forall>k. p \<le> k \<and> k < N \<longrightarrow> dle (dabs (identity ! k ! p)) (dabs (identity ! r ! p))"
    by blast
  from mx assms(3) have "dle (dabs (identity ! p ! p)) (dabs (identity ! r ! p))" by blast
  then have rp: "r = p" using r(3) assms(3) by (simp add: identity_nth split: if_splits)
  from pivot_step_spec[OF wfI assms(1,3)] r(1) rp
  have c: "if dless (dabs (identity ! p ! p)) threshold
        then pivot_step identity v p = Some (Returned_false identity v)
        else \<exists>A' b'. pivot_step identity v p = Some (Continue A' b')
                \<and> step_effect identity v p p A' b'"
    by auto
  have "\<not> dless (dabs (identity ! p ! p)) threshold"
    using assms(3) one_not_below_threshold by (simp add: identity_nth)
  with c obtain A' b' where ps: "pivot_step identity v p = Some (Continue A' b')"
    and eff: "step_effect identity v p p A' b'"
    by auto
  have wf': "wf_matrix A'" "wf_vector b'" using eff by (simp_all add: step_effect_def)
  have "A' = identity"
  proof (rule matrix_eqI[OF wf'(1) wfI])
    fix i c assume ic: "i < N" "c < N"
    show "A' ! i ! c = identity ! i ! c"
      using step_effect_A[OF eff wfI assms(3) assms(3) ic] ic assms(3)
      by (auto simp: Let_def identity_nth)
  qed
  moreover have "b' = v"
  proof (rule nth_equalityI)
    show "length b' = length v" using wf'(2) assms(1) by (simp add: wf_vector_def)
    fix i assume "i < length b'"
    then have i: "i < N" using wf'(2) by (simp add: wf_vector_def)
    show "b' ! i = v ! i"
      using step_effect_b[OF eff wfI assms(1) assms(3) assms(3) i] i assms(3)
        finite_double_arith[OF fin[OF i]] finite_double_arith[OF fin[OF assms(3)]]
      by (auto simp: Let_def identity_nth)
  qed
  ultimately show ?thesis using ps by simp
qed

lemma forward_elimination_identity:
  assumes "wf_vector v" "list_all finite_double v" "n \<le> N"
  shows "forward_elimination identity v n = Some (Continue identity v)"
  using assms(3) by (induction n) (simp_all add: pivot_step_identity[OF assms(1,2)])

lemma back_substitution_identity:
  assumes "wf_vector v" "list_all finite_double v" "n \<le> N"
  shows "back_substitution identity v n = Some v"
  using assms(3)
proof (induction n)
  case 0
  show ?case by simp
next
  case (Suc i)
  have i: "i < N" "i \<le> N" using Suc.prems by simp_all
  have len: "length v = N" using assms(1) by (simp add: wf_vector_def)
  have fin: "finite_double (v ! k)" if "k < N" for k
    using assms(2) that len by (simp add: list_all_length)
  have "\<forall>c<N. i + 1 \<le> c \<longrightarrow> dminus (v ! i) (dtimes (identity ! i ! c) (v ! c)) = v ! i"
  proof (intro allI impI)
    fix c assume c: "c < N" "i + 1 \<le> c"
    then have "identity ! i ! c = Finite 0" using i by (simp add: identity_nth)
    then show "dminus (v ! i) (dtimes (identity ! i ! c) (v ! c)) = v ! i"
      using finite_double_arith[OF fin[OF c(1)]] finite_double_arith[OF fin[OF i(1)]] by simp
  qed
  from subtract_solved_unchanged[OF assms(1) i(1) _ this]
  have s: "subtract_solved identity v i (i + 1) = Some v" by simp
  have q: "ddivide (v ! i) (identity ! i ! i) = v ! i"
    using finite_double_arith[OF fin[OF i(1)]] i by (simp add: identity_nth)
  have "back_substitution identity v (Suc i) = back_substitution identity v i"
    using s q i by (simp add: getb_def getA_def fdiv_def setb_def identity_nth)
  with Suc.IH[OF i(2)] show ?case by simp
qed

lemma solveMatrix_identity:
  assumes "wf_vector v" "list_all finite_double v"
  shows "solveMatrix identity v = Some (True, identity, v)"
  by (simp add: solveMatrix_def forward_elimination_identity[OF assms le_refl]
      back_substitution_identity[OF assms le_refl])

subsection \<open>Matrices with a zero row or a repeated row\<close>








section \<open>Runs on the sample inputs\<close>

text \<open>
  The runs are computed by rewriting with the equations of the solver, one pivot step at
  a time. The numbers that occur are doubles, so that no operation on them rounds
  except where it overflows.
\<close>

lemma bind_weak_cong: "m = m' \<Longrightarrow> Option.bind m f = Option.bind m' f"
  by simp

lemma rnd_fractions [simp]:
  "rnd (1 / 2) = Finite (1 / 2)"
  "rnd (1 / 4) = Finite (1 / 4)"
  "rnd (- (1 / 4)) = Finite (- (1 / 4))"
  "rnd (11 / 4) = Finite (11 / 4)"
  "rnd (15 / 4) = Finite (15 / 4)"
  "rnd (- (15 / 4)) = Finite (- (15 / 4))"
  using rnd_scaled[of 1 "- 1"] rnd_scaled[of 1 "- 2"] rnd_scaled[of "- 1" "- 2"]
    rnd_scaled[of 11 "- 2"] rnd_scaled[of 15 "- 2"] rnd_scaled[of "- 15" "- 2"]
  by (simp_all add: power_int_minus)

lemma rnd_huge [simp]:
  "rnd huge = Finite huge" "rnd (- huge) = Finite (- huge)" "rnd (- (2 * huge)) = NInf"
proof -
  have h: "huge = 2 powi 1023" by (simp only: huge_def power_int_def) simp
  show "rnd huge = Finite huge" "rnd (- huge) = Finite (- huge)"
    unfolding h by (rule rnd_power_of_two; simp)+
  have "(2::real) ^ 1024 \<le> \<bar>- (2 * huge)\<bar>" by (simp add: huge_def)
  from rnd_overflow[OF this] show "rnd (- (2 * huge)) = NInf" by (simp add: huge_def)
qed

lemma finite_double_simps [simp]:
  "finite_double (Finite 0)" "finite_double (Finite 1)"
  "numeral w < (2::int) ^ 53 \<Longrightarrow> finite_double (Finite (numeral w))"
  "numeral w < (2::int) ^ 53 \<Longrightarrow> finite_double (Finite (- numeral w))"
  "finite_double (Finite (1 / 4))"
  by (simp_all add: finite_double_def rnd_numeral rnd_neg_numeral)

lemmas run_simps = find_max_row.simps swap_ranges.simps elim_cols.simps elim_rows.simps
  subtract_solved.simps getA_def setA_def getb_def setb_def fdiv_def N_def threshold_def
  pivot_step_def swap_rows_def swap_b_def rnd_numeral rnd_neg_numeral

lemma forward_elimination_numeral:
  "forward_elimination A b (numeral k) = do {
     s \<leftarrow> forward_elimination A b (pred_numeral k);
     case s of
       Returned_false A1 b1 \<Rightarrow> Some (Returned_false A1 b1)
     | Continue A1 b1 \<Rightarrow> pivot_step A1 b1 (pred_numeral k)
   }"
  by (simp add: numeral_eq_Suc)

lemma back_substitution_numeral:
  "back_substitution A b (numeral k) = do {
     b1 \<leftarrow> subtract_solved A b (pred_numeral k) (pred_numeral k + 1);
     bi \<leftarrow> getb b1 (pred_numeral k);
     aii \<leftarrow> getA A (pred_numeral k) (pred_numeral k);
     q \<leftarrow> fdiv bi aii;
     b2 \<leftarrow> setb b1 (pred_numeral k) q;
     back_substitution A b2 (pred_numeral k)
   }"
  by (simp add: numeral_eq_Suc)

text \<open>Every matrix the two runs meet at the top of a pivot step is finite.\<close>

lemma less_N_cases:
  assumes "p < N"
  shows "p = 0 \<or> p = 1 \<or> p = 2 \<or> p = 3 \<or> p = 4 \<or> p = 5 \<or> p = 6 \<or> p = 7 \<or> p = 8 \<or> p = 9"
  using assms unfolding N_def by arith

lemma wf_examples:
  "wf_matrix example_A" "wf_vector example_b" "wf_matrix example_Z"
  "wf_matrix overflow_A" "wf_vector overflow_b" "wf_vector example_x"
  by (simp_all add: wf_matrix_def wf_vector_def example_A_def example_b_def example_Z_def
      overflow_A_def overflow_b_def example_x_def N_def)

lemma wf_examples2:
  "wf_matrix example_A1" "wf_vector example_b1" "wf_matrix wrong_A" "wf_vector wrong_b"
  by (simp_all add: wf_matrix_def wf_vector_def example_A1_def example_b1_def wrong_A_def
      wrong_b_def N_def)


subsection \<open>The system that is solved\<close>

lemma example_scan: "find_max_row example_A 0 (0 + 1) 0 = Some 1"
  by (simp add: run_simps example_A_def cong: bind_weak_cong)

lemma example_step_0: "pivot_step example_A example_b 0 = Some (Continue example_A1 example_b1)"
  by (simp add: run_simps example_A_def example_b_def example_A1_def example_b1_def cong: bind_weak_cong)

lemma example_step_1: "pivot_step example_A1 example_b1 1 = Some (Continue example_U example_c)"
  by (simp add: run_simps example_A1_def example_b1_def example_U_def example_c_def cong: bind_weak_cong)

lemma example_scan_1: "find_max_row example_A1 1 (1 + 1) 1 = Some 2"
  by (simp add: run_simps example_A1_def cong: bind_weak_cong)

lemma example_step_2: "pivot_step example_U example_c 2 = Some (Continue example_U example_c)"
  by (simp add: run_simps example_U_def example_c_def cong: bind_weak_cong)

lemma example_step_3: "pivot_step example_U example_c 3 = Some (Continue example_U example_c)"
  by (simp add: run_simps example_U_def example_c_def cong: bind_weak_cong)

lemma example_step_4: "pivot_step example_U example_c 4 = Some (Continue example_U example_c)"
  by (simp add: run_simps example_U_def example_c_def cong: bind_weak_cong)

lemma example_step_5: "pivot_step example_U example_c 5 = Some (Continue example_U example_c)"
  by (simp add: run_simps example_U_def example_c_def cong: bind_weak_cong)

lemma example_step_6: "pivot_step example_U example_c 6 = Some (Continue example_U example_c)"
  by (simp add: run_simps example_U_def example_c_def cong: bind_weak_cong)

lemma example_step_7: "pivot_step example_U example_c 7 = Some (Continue example_U example_c)"
  by (simp add: run_simps example_U_def example_c_def cong: bind_weak_cong)

lemma example_step_8: "pivot_step example_U example_c 8 = Some (Continue example_U example_c)"
  by (simp add: run_simps example_U_def example_c_def cong: bind_weak_cong)

lemma example_step_9: "pivot_step example_U example_c 9 = Some (Continue example_U example_c)"
  by (simp add: run_simps example_U_def example_c_def cong: bind_weak_cong)

lemma example_forward:
  "forward_elimination example_A example_b 0 = Some (Continue example_A example_b)"
  "forward_elimination example_A example_b 1 = Some (Continue example_A1 example_b1)"
  "forward_elimination example_A example_b 2 = Some (Continue example_U example_c)"
  "forward_elimination example_A example_b N = Some (Continue example_U example_c)"
proof -
  show "forward_elimination example_A example_b 0 = Some (Continue example_A example_b)"
    by simp
  show f1: "forward_elimination example_A example_b 1 = Some (Continue example_A1 example_b1)"
    by (simp add: example_step_0)
  show f2: "forward_elimination example_A example_b 2 = Some (Continue example_U example_c)"
    using f1 example_step_1 by (simp add: forward_elimination_numeral)
  have f3: "forward_elimination example_A example_b 3 = Some (Continue example_U example_c)"
    using f2 example_step_2 by (simp add: forward_elimination_numeral)
  have f4: "forward_elimination example_A example_b 4 = Some (Continue example_U example_c)"
    using f3 example_step_3 by (simp add: forward_elimination_numeral)
  have f5: "forward_elimination example_A example_b 5 = Some (Continue example_U example_c)"
    using f4 example_step_4 by (simp add: forward_elimination_numeral)
  have f6: "forward_elimination example_A example_b 6 = Some (Continue example_U example_c)"
    using f5 example_step_5 by (simp add: forward_elimination_numeral)
  have f7: "forward_elimination example_A example_b 7 = Some (Continue example_U example_c)"
    using f6 example_step_6 by (simp add: forward_elimination_numeral)
  have f8: "forward_elimination example_A example_b 8 = Some (Continue example_U example_c)"
    using f7 example_step_7 by (simp add: forward_elimination_numeral)
  have f9: "forward_elimination example_A example_b 9 = Some (Continue example_U example_c)"
    using f8 example_step_8 by (simp add: forward_elimination_numeral)
  have "forward_elimination example_A example_b 10 = Some (Continue example_U example_c)"
    using f9 example_step_9 by (simp add: forward_elimination_numeral)
  then show "forward_elimination example_A example_b N = Some (Continue example_U example_c)"
    by (simp add: N_def)
qed

lemma example_back: "back_substitution example_U example_c N = Some example_x"
  by (simp add: run_simps back_substitution_numeral example_U_def example_c_def example_x_def
      cong: bind_weak_cong)

lemma example_run: "solveMatrix example_A example_b = Some (True, example_U, example_x)"
  by (simp add: solveMatrix_def example_forward example_back)

lemma example_finite: "all_finite example_A" "list_all finite_double example_x"
  by (simp_all add: all_finite_def finite_double_def example_A_def example_x_def
      rnd_numeral rnd_neg_numeral)

subsection \<open>The systems with a zero row and with a repeated row\<close>

lemma example_Z_step_0: "pivot_step example_Z example_b 0 = Some (Continue example_Z1 example_b1)"
  by (simp add: run_simps example_Z_def example_b_def example_Z1_def example_b1_def
      cong: bind_weak_cong)

lemma example_Z_step_1: "pivot_step example_Z1 example_b1 1 = Some (Continue example_V example_c)"
  by (simp add: run_simps example_Z1_def example_b1_def example_V_def example_c_def
      cong: bind_weak_cong)

lemma example_Z_step_2: "pivot_step example_V example_c 2 = Some (Continue example_V example_c)"
  by (simp add: run_simps example_V_def example_c_def cong: bind_weak_cong)

lemma example_Z_scan: "find_max_row example_V 3 (3 + 1) 3 = Some 3"
  by (simp add: run_simps example_V_def cong: bind_weak_cong)

lemma example_Z_step_3: "pivot_step example_V example_c 3 = Some (Returned_false example_V example_c)"
  by (simp add: run_simps example_V_def example_c_def cong: bind_weak_cong)

lemma example_Z_forward:
  "forward_elimination example_Z example_b 0 = Some (Continue example_Z example_b)"
  "forward_elimination example_Z example_b 1 = Some (Continue example_Z1 example_b1)"
  "forward_elimination example_Z example_b 2 = Some (Continue example_V example_c)"
  "forward_elimination example_Z example_b 3 = Some (Continue example_V example_c)"
  "forward_elimination example_Z example_b 4 = Some (Returned_false example_V example_c)"
  "forward_elimination example_Z example_b 5 = Some (Returned_false example_V example_c)"
  "forward_elimination example_Z example_b 6 = Some (Returned_false example_V example_c)"
  "forward_elimination example_Z example_b 7 = Some (Returned_false example_V example_c)"
  "forward_elimination example_Z example_b 8 = Some (Returned_false example_V example_c)"
  "forward_elimination example_Z example_b 9 = Some (Returned_false example_V example_c)"
  "forward_elimination example_Z example_b N = Some (Returned_false example_V example_c)"
proof -
  show f0: "forward_elimination example_Z example_b 0 = Some (Continue example_Z example_b)"
    by simp
  show f1: "forward_elimination example_Z example_b 1 = Some (Continue example_Z1 example_b1)"
    by (simp add: example_Z_step_0)
  show f2: "forward_elimination example_Z example_b 2 = Some (Continue example_V example_c)"
    using f1 example_Z_step_1 by (simp add: forward_elimination_numeral)
  show f3: "forward_elimination example_Z example_b 3 = Some (Continue example_V example_c)"
    using f2 example_Z_step_2 by (simp add: forward_elimination_numeral)
  show f4: "forward_elimination example_Z example_b 4 = Some (Returned_false example_V example_c)"
    using f3 example_Z_step_3 by (simp add: forward_elimination_numeral)
  show f5: "forward_elimination example_Z example_b 5 = Some (Returned_false example_V example_c)"
    using f4 by (simp add: forward_elimination_numeral)
  show f6: "forward_elimination example_Z example_b 6 = Some (Returned_false example_V example_c)"
    using f5 by (simp add: forward_elimination_numeral)
  show f7: "forward_elimination example_Z example_b 7 = Some (Returned_false example_V example_c)"
    using f6 by (simp add: forward_elimination_numeral)
  show f8: "forward_elimination example_Z example_b 8 = Some (Returned_false example_V example_c)"
    using f7 by (simp add: forward_elimination_numeral)
  show f9: "forward_elimination example_Z example_b 9 = Some (Returned_false example_V example_c)"
    using f8 by (simp add: forward_elimination_numeral)
  have "forward_elimination example_Z example_b 10 = Some (Returned_false example_V example_c)"
    using f9 by (simp add: forward_elimination_numeral)
  then show "forward_elimination example_Z example_b N = Some (Returned_false example_V example_c)"
    by (simp add: N_def)
qed

lemma example_Z_run: "solveMatrix example_Z example_b = Some (False, example_V, example_c)"
  by (simp add: solveMatrix_def example_Z_forward)











subsection \<open>The systems that overflow\<close>

lemma overflow_step_0: "pivot_step overflow_A overflow_b 0 = Some (Continue overflow_A overflow_b)"
  by (simp add: run_simps overflow_A_def overflow_b_def cong: bind_weak_cong)

lemma overflow_step_1: "pivot_step overflow_A overflow_b 1 = Some (Continue overflow_A overflow_b)"
  by (simp add: run_simps overflow_A_def overflow_b_def cong: bind_weak_cong)

lemma overflow_step_2: "pivot_step overflow_A overflow_b 2 = Some (Continue overflow_A overflow_b)"
  by (simp add: run_simps overflow_A_def overflow_b_def cong: bind_weak_cong)

lemma overflow_step_3: "pivot_step overflow_A overflow_b 3 = Some (Continue overflow_A overflow_b)"
  by (simp add: run_simps overflow_A_def overflow_b_def cong: bind_weak_cong)

lemma overflow_step_4: "pivot_step overflow_A overflow_b 4 = Some (Continue overflow_A overflow_b)"
  by (simp add: run_simps overflow_A_def overflow_b_def cong: bind_weak_cong)

lemma overflow_step_5: "pivot_step overflow_A overflow_b 5 = Some (Continue overflow_A overflow_b)"
  by (simp add: run_simps overflow_A_def overflow_b_def cong: bind_weak_cong)

lemma overflow_step_6: "pivot_step overflow_A overflow_b 6 = Some (Continue overflow_A7 overflow_b7)"
  by (simp add: run_simps overflow_A_def overflow_b_def overflow_A7_def overflow_b7_def
      cong: bind_weak_cong)

lemma overflow_step_7: "pivot_step overflow_A7 overflow_b7 7 = Some (Continue overflow_A8 overflow_b7)"
  by (simp add: run_simps overflow_A7_def overflow_b7_def overflow_A8_def cong: bind_weak_cong)

lemma overflow_scan_8: "find_max_row overflow_A8 8 (8 + 1) 8 = Some 8"
  by (simp add: run_simps overflow_A8_def cong: bind_weak_cong)

lemma overflow_step_8: "pivot_step overflow_A8 overflow_b7 8 = Some (Continue overflow_U overflow_c)"
  by (simp add: run_simps overflow_A8_def overflow_b7_def overflow_U_def overflow_c_def
      cong: bind_weak_cong)

lemma overflow_step_9: "pivot_step overflow_U overflow_c 9 = Some (Continue overflow_U overflow_c)"
  by (simp add: run_simps overflow_U_def overflow_c_def cong: bind_weak_cong)

lemma overflow_forward:
  "forward_elimination overflow_A overflow_b 8 = Some (Continue overflow_A8 overflow_b7)"
  "forward_elimination overflow_A overflow_b N = Some (Continue overflow_U overflow_c)"
proof -
  have f1: "forward_elimination overflow_A overflow_b 1 = Some (Continue overflow_A overflow_b)"
    by (simp add: overflow_step_0)
  have f2: "forward_elimination overflow_A overflow_b 2 = Some (Continue overflow_A overflow_b)"
    using f1 overflow_step_1 by (simp add: forward_elimination_numeral)
  have f3: "forward_elimination overflow_A overflow_b 3 = Some (Continue overflow_A overflow_b)"
    using f2 overflow_step_2 by (simp add: forward_elimination_numeral)
  have f4: "forward_elimination overflow_A overflow_b 4 = Some (Continue overflow_A overflow_b)"
    using f3 overflow_step_3 by (simp add: forward_elimination_numeral)
  have f5: "forward_elimination overflow_A overflow_b 5 = Some (Continue overflow_A overflow_b)"
    using f4 overflow_step_4 by (simp add: forward_elimination_numeral)
  have f6: "forward_elimination overflow_A overflow_b 6 = Some (Continue overflow_A overflow_b)"
    using f5 overflow_step_5 by (simp add: forward_elimination_numeral)
  have f7: "forward_elimination overflow_A overflow_b 7 = Some (Continue overflow_A7 overflow_b7)"
    using f6 overflow_step_6 by (simp add: forward_elimination_numeral)
  show f8: "forward_elimination overflow_A overflow_b 8 = Some (Continue overflow_A8 overflow_b7)"
    using f7 overflow_step_7 by (simp add: forward_elimination_numeral)
  have f9: "forward_elimination overflow_A overflow_b 9 = Some (Continue overflow_U overflow_c)"
    using f8 overflow_step_8 by (simp add: forward_elimination_numeral)
  have f10: "forward_elimination overflow_A overflow_b 10 = Some (Continue overflow_U overflow_c)"
    using f9 overflow_step_9 by (simp add: forward_elimination_numeral)
  from f10 show "forward_elimination overflow_A overflow_b N = Some (Continue overflow_U overflow_c)"
    by (simp add: N_def)
qed



lemma overflow_finite: "all_finite overflow_A" "list_all finite_double overflow_b"
  by (simp_all add: all_finite_def finite_double_def overflow_A_def overflow_b_def)

lemma wrong_step_0: "pivot_step wrong_A wrong_b 0 = Some (Continue wrong_U wrong_c)"
  by (simp add: run_simps wrong_A_def wrong_b_def wrong_U_def wrong_c_def cong: bind_weak_cong)

lemma wrong_step_1: "pivot_step wrong_U wrong_c 1 = Some (Continue wrong_U wrong_c)"
  by (simp add: run_simps wrong_U_def wrong_c_def cong: bind_weak_cong)

lemma wrong_step_2: "pivot_step wrong_U wrong_c 2 = Some (Continue wrong_U wrong_c)"
  by (simp add: run_simps wrong_U_def wrong_c_def cong: bind_weak_cong)

lemma wrong_step_3: "pivot_step wrong_U wrong_c 3 = Some (Continue wrong_U wrong_c)"
  by (simp add: run_simps wrong_U_def wrong_c_def cong: bind_weak_cong)

lemma wrong_step_4: "pivot_step wrong_U wrong_c 4 = Some (Continue wrong_U wrong_c)"
  by (simp add: run_simps wrong_U_def wrong_c_def cong: bind_weak_cong)

lemma wrong_step_5: "pivot_step wrong_U wrong_c 5 = Some (Continue wrong_U wrong_c)"
  by (simp add: run_simps wrong_U_def wrong_c_def cong: bind_weak_cong)

lemma wrong_step_6: "pivot_step wrong_U wrong_c 6 = Some (Continue wrong_U wrong_c)"
  by (simp add: run_simps wrong_U_def wrong_c_def cong: bind_weak_cong)

lemma wrong_step_7: "pivot_step wrong_U wrong_c 7 = Some (Continue wrong_U wrong_c)"
  by (simp add: run_simps wrong_U_def wrong_c_def cong: bind_weak_cong)

lemma wrong_step_8: "pivot_step wrong_U wrong_c 8 = Some (Continue wrong_U wrong_c)"
  by (simp add: run_simps wrong_U_def wrong_c_def cong: bind_weak_cong)

lemma wrong_step_9: "pivot_step wrong_U wrong_c 9 = Some (Continue wrong_U wrong_c)"
  by (simp add: run_simps wrong_U_def wrong_c_def cong: bind_weak_cong)

lemma wrong_forward: "forward_elimination wrong_A wrong_b N = Some (Continue wrong_U wrong_c)"
proof -
  have f1: "forward_elimination wrong_A wrong_b 1 = Some (Continue wrong_U wrong_c)"
    by (simp add: wrong_step_0)
  have f2: "forward_elimination wrong_A wrong_b 2 = Some (Continue wrong_U wrong_c)"
    using f1 wrong_step_1 by (simp add: forward_elimination_numeral)
  have f3: "forward_elimination wrong_A wrong_b 3 = Some (Continue wrong_U wrong_c)"
    using f2 wrong_step_2 by (simp add: forward_elimination_numeral)
  have f4: "forward_elimination wrong_A wrong_b 4 = Some (Continue wrong_U wrong_c)"
    using f3 wrong_step_3 by (simp add: forward_elimination_numeral)
  have f5: "forward_elimination wrong_A wrong_b 5 = Some (Continue wrong_U wrong_c)"
    using f4 wrong_step_4 by (simp add: forward_elimination_numeral)
  have f6: "forward_elimination wrong_A wrong_b 6 = Some (Continue wrong_U wrong_c)"
    using f5 wrong_step_5 by (simp add: forward_elimination_numeral)
  have f7: "forward_elimination wrong_A wrong_b 7 = Some (Continue wrong_U wrong_c)"
    using f6 wrong_step_6 by (simp add: forward_elimination_numeral)
  have f8: "forward_elimination wrong_A wrong_b 8 = Some (Continue wrong_U wrong_c)"
    using f7 wrong_step_7 by (simp add: forward_elimination_numeral)
  have f9: "forward_elimination wrong_A wrong_b 9 = Some (Continue wrong_U wrong_c)"
    using f8 wrong_step_8 by (simp add: forward_elimination_numeral)
  have "forward_elimination wrong_A wrong_b 10 = Some (Continue wrong_U wrong_c)"
    using f9 wrong_step_9 by (simp add: forward_elimination_numeral)
  then show ?thesis by (simp add: N_def)
qed

lemma wrong_back: "back_substitution wrong_U wrong_c N = Some wrong_x"
  by (simp add: run_simps back_substitution_numeral wrong_U_def wrong_c_def wrong_x_def
      cong: bind_weak_cong)

lemma wrong_run: "solveMatrix wrong_A wrong_b = Some (True, wrong_U, wrong_x)"
  by (simp add: solveMatrix_def wrong_forward wrong_back)

lemma wrong_finite:
  "all_finite wrong_A" "list_all finite_double wrong_b" "list_all finite_double wrong_x"
  by (simp_all add: all_finite_def finite_double_def wrong_A_def wrong_b_def wrong_x_def
      rnd_numeral)

lemma wrong_row: "row_value wrong_A wrong_x 1 = 1" "wrong_b ! 1 = Finite 3"
  by (simp_all add: row_value_def wrong_A_def wrong_x_def wrong_b_def)

section \<open>The claims\<close>

subsection \<open>The pivot row of a step and its exchange\<close>

lemma pivot_step_below_threshold:
  assumes "p < N" "find_max_row A p (p + 1) p = Some r" "r < N"
    and "dless (dabs (A ! r ! p)) threshold"
  shows "pivot_step A b p = Some (Returned_false A b)"
  using assms by (simp add: pivot_step_def getA_def)

lemma pivot_step_not_below_threshold:
  assumes "wf_matrix A" "wf_vector b" "p < N" "find_max_row A p (p + 1) p = Some r"
    and "\<not> dless (dabs (A ! r ! p)) threshold"
  shows "\<exists>A' b'. pivot_step A b p = Some (Continue A' b') \<and> step_effect A b p r A' b'
     \<and> (\<forall>c<N. A' ! p ! c = A ! r ! c) \<and> b' ! p = b ! r"
proof -
  from pivot_step_total[OF assms(1-3)] consider
    "pivot_step A b p = Some (Returned_false A b)"
  | A' b' where "pivot_step A b p = Some (Continue A' b')"
    by blast
  then show ?thesis
  proof cases
    case 1
    from pivot_step_Returned_false[OF assms(1-3) 1] assms(4,5) show ?thesis by auto
  next
    case 2
    from pivot_step_Continue[OF assms(1-3) 2] pivot_step_pivot_row[OF assms(1-3) 2] assms(4) 2
    show ?thesis by auto
  qed
qed

text \<open>
  C3, as stated, fails on the code. The comparison of line 27 is false as soon as one
  side is a NaN, so a row whose entry in column \<open>p\<close> is a NaN is never replaced once it
  is the candidate. On the finite input \<open>overflow_A\<close>, \<open>overflow_b\<close> the elimination
  itself produces such an entry (an overflow in step 6, then \<open>0 * (-inf)\<close> in step 7):
  at the top of step 8 column 8 holds a NaN in row 8 and \<open>+inf\<close> in row 9, and the scan
  keeps row 8, whose entry does not bound that of row 9.
\<close>

theorem scan_keeps_row_of_NaN:
  "all_finite overflow_A \<and> list_all finite_double overflow_b
   \<and> forward_elimination overflow_A overflow_b 8 = Some (Continue overflow_A8 overflow_b7)
   \<and> overflow_A8 ! 8 ! 8 = NaN \<and> overflow_A8 ! 9 ! 8 = PInf
   \<and> find_max_row overflow_A8 8 (8 + 1) 8 = Some 8
   \<and> \<not> dle (dabs (overflow_A8 ! 9 ! 8)) (dabs (overflow_A8 ! 8 ! 8))
   \<and> pivot_step overflow_A8 overflow_b7 8 = Some (Continue overflow_U overflow_c)
   \<and> overflow_U ! 8 = overflow_A8 ! 8"
proof -
  have "overflow_A8 ! 8 ! 8 = NaN" "overflow_A8 ! 9 ! 8 = PInf"
    "overflow_U ! 8 = overflow_A8 ! 8"
    by (simp_all add: overflow_A8_def overflow_U_def)
  then show ?thesis
    using overflow_finite overflow_forward(1) overflow_scan_8 overflow_step_8 by simp
qed

text \<open>
  C3, amended. At a pivot step \<open>p\<close> that finds no NaN in column \<open>p\<close> of the rows
  \<open>p..N-1\<close>, the scan of lines 25 to 30 selects a row \<open>r\<close> of \<open>p..N-1\<close> whose entry in
  column \<open>p\<close> has the largest absolute value among the rows \<open>p..N-1\<close>, every row of that
  range above \<open>r\<close> having a strictly smaller one, so that \<open>r\<close> is the first row that
  reaches the maximum; and \<open>r\<close> is the row the step goes on with: its entry is the one
  tested on line 33, and when the test lets the step go on, row \<open>r\<close> of \<open>A\<close> and entry
  \<open>r\<close> of \<open>b\<close> are what the step leaves in place \<open>p\<close>.
\<close>

theorem pivot_step_selects_first_maximum:
  assumes "wf_matrix A" and "wf_vector b" and "p < N"
    and "\<forall>k. p \<le> k \<and> k < N \<longrightarrow> A ! k ! p \<noteq> NaN"
  shows "\<exists>r. find_max_row A p (p + 1) p = Some r \<and> p \<le> r \<and> r < N
     \<and> (\<forall>k. p \<le> k \<and> k < N \<longrightarrow> dle (dabs (A ! k ! p)) (dabs (A ! r ! p)))
     \<and> (\<forall>k. p \<le> k \<and> k < r \<longrightarrow> dless (dabs (A ! k ! p)) (dabs (A ! r ! p)))
     \<and> (if dless (dabs (A ! r ! p)) threshold
        then pivot_step A b p = Some (Returned_false A b)
        else \<exists>A' b'. pivot_step A b p = Some (Continue A' b')
               \<and> (\<forall>c<N. A' ! p ! c = A ! r ! c) \<and> b' ! p = b ! r)"
proof -
  from select_pivot[OF assms(3,4)] obtain r
    where r: "find_max_row A p (p + 1) p = Some r" "p \<le> r" "r < N"
      and mx: "\<forall>k. p \<le> k \<and> k < N \<longrightarrow> dle (dabs (A ! k ! p)) (dabs (A ! r ! p))"
      and first: "\<forall>k. p \<le> k \<and> k < r \<longrightarrow> dless (dabs (A ! k ! p)) (dabs (A ! r ! p))"
    by blast
  show ?thesis
  proof (cases "dless (dabs (A ! r ! p)) threshold")
    case True
    from pivot_step_below_threshold[OF assms(3) r(1,3) True] True r mx first
    show ?thesis by (intro exI[of _ r]) simp
  next
    case False
    from pivot_step_not_below_threshold[OF assms(1-3) r(1) False]
    have "\<exists>A' b'. pivot_step A b p = Some (Continue A' b')
               \<and> (\<forall>c<N. A' ! p ! c = A ! r ! c) \<and> b' ! p = b ! r"
      by blast
    with False r mx first show ?thesis by (intro exI[of _ r]) simp
  qed
qed

theorem pivot_step_selects_first_maximum_witness:
  "wf_matrix example_A \<and> wf_vector example_b \<and> 0 < N \<and> all_finite example_A
   \<and> find_max_row example_A 0 (0 + 1) 0 = Some 1
   \<and> dabs (example_A ! 2 ! 0) = dabs (example_A ! 1 ! 0)
   \<and> dle (dabs (example_A ! 2 ! 0)) (dabs (example_A ! 1 ! 0))
   \<and> dless (dabs (example_A ! 0 ! 0)) (dabs (example_A ! 1 ! 0))
   \<and> pivot_step example_A example_b 0 = Some (Continue example_A1 example_b1)
   \<and> example_A1 ! 0 ! 1 = example_A ! 1 ! 1 \<and> example_b1 ! 0 = example_b ! 1"
proof -
  have n: "0 < N" "1 < N" "2 < N" by (simp_all add: N_def)
  have no_NaN: "\<forall>k. 0 \<le> k \<and> k < N \<longrightarrow> example_A ! k ! 0 \<noteq> NaN"
  proof (intro allI impI)
    fix k assume "0 \<le> k \<and> k < N"
    then have "k < N" by simp
    from less_N_cases[OF this] show "example_A ! k ! 0 \<noteq> NaN"
      by (elim disjE) (simp_all add: example_A_def)
  qed
  have tie: "dabs (example_A ! 2 ! 0) = dabs (example_A ! 1 ! 0)"
    by (simp add: example_A_def)
  have pass: "\<not> dless (dabs (example_A ! 1 ! 0)) threshold"
    by (simp add: example_A_def threshold_def)
  from pivot_step_selects_first_maximum [OF wf_examples(1,2) n(1) no_NaN] example_scan example_step_0
  have "\<forall>k. 0 \<le> k \<and> k < N \<longrightarrow> dle (dabs (example_A ! k ! 0)) (dabs (example_A ! 1 ! 0))"
    and "\<forall>k. 0 \<le> k \<and> k < 1 \<longrightarrow> dless (dabs (example_A ! k ! 0)) (dabs (example_A ! 1 ! 0))"
    and "\<not> dless (dabs (example_A ! 1 ! 0)) threshold
      \<longrightarrow> (\<forall>c<N. example_A1 ! 0 ! c = example_A ! 1 ! c) \<and> example_b1 ! 0 = example_b ! 1"
    by (auto split: if_splits)
  with pass have "dle (dabs (example_A ! 2 ! 0)) (dabs (example_A ! 1 ! 0))"
    and "dless (dabs (example_A ! 0 ! 0)) (dabs (example_A ! 1 ! 0))"
    and "example_A1 ! 0 ! 1 = example_A ! 1 ! 1" and "example_b1 ! 0 = example_b ! 1"
    using n by simp_all
  with wf_examples(1,2) n(1) example_finite(1) example_scan example_step_0 tie
  show ?thesis by blast
qed

text \<open>
  C4. Pivot step \<open>p\<close> of the solver, once the test of line 33 has let it go on, exchanges
  on the arrays it finds row \<open>p\<close> with the row \<open>max_row\<close> its scan selected when the two
  differ: \<open>A\<close> with the whole rows exchanged (as lists of all \<open>N\<close> entries, so the columns
  left of \<open>p\<close> take part) and \<open>b\<close> with the two entries exchanged; when \<open>max_row = p\<close> both
  stay as they are. What the step leaves is the elimination of lines 44 to 56 run on
  these arrays: in place \<open>p\<close> the former row \<open>max_row\<close> of \<open>A\<close> and entry \<open>max_row\<close> of
  \<open>b\<close>, and in row \<open>max_row\<close>, left of column \<open>p\<close>, the entries of the former row \<open>p\<close>.
\<close>

theorem pivot_step_exchanges_whole_rows:
  assumes "wf_matrix A" and "wf_vector b" and "p < N"
  shows "\<exists>max_row. find_max_row A p (p + 1) p = Some max_row \<and> p \<le> max_row \<and> max_row < N
     \<and> (if dless (dabs (A ! max_row ! p)) threshold
        then pivot_step A b p = Some (Returned_false A b)
        else swap_rows A b p max_row =
               Some (if max_row \<noteq> p
                     then (A[p := A ! max_row, max_row := A ! p],
                           b[p := b ! max_row, max_row := b ! p])
                     else (A, b))
           \<and> pivot_step A b p =
               (case swap_rows A b p max_row of
                  None \<Rightarrow> None
                | Some (A1, b1) \<Rightarrow>
                    (case elim_rows A1 b1 p (p + 1) of
                       None \<Rightarrow> None
                     | Some (A2, b2) \<Rightarrow> Some (Continue A2 b2)))
           \<and> (\<exists>A' b'. pivot_step A b p = Some (Continue A' b')
                \<and> (\<forall>c<N. A' ! p ! c = A ! max_row ! c) \<and> b' ! p = b ! max_row
                \<and> (\<forall>c<p. A' ! max_row ! c = A ! p ! c)))"
proof -
  from select_pivot_range[OF assms(3)] obtain r
    where r: "find_max_row A p (p + 1) p = Some r" "p \<le> r" "r < N"
    by blast
  show ?thesis
  proof (cases "dless (dabs (A ! r ! p)) threshold")
    case True
    from pivot_step_below_threshold[OF assms(3) r(1,3) True] True r
    show ?thesis by (intro exI[of _ r]) simp
  next
    case False
    have sw: "swap_rows A b p r =
               Some (if r \<noteq> p then (A[p := A ! r, r := A ! p], b[p := b ! r, r := b ! p])
                     else (A, b))"
      using assms(1,3) r(3) by (simp add: swap_rows_def swap_ranges_rows swap_b_spec)
    have ps: "pivot_step A b p =
               (case swap_rows A b p r of
                  None \<Rightarrow> None
                | Some (A1, b1) \<Rightarrow>
                    (case elim_rows A1 b1 p (p + 1) of
                       None \<Rightarrow> None
                     | Some (A2, b2) \<Rightarrow> Some (Continue A2 b2)))"
      using False r assms(3)
      by (auto simp: pivot_step_def getA_def split: option.splits bind_splits)
    from pivot_step_not_below_threshold[OF assms(1-3) r(1) False] obtain A' b'
      where c: "pivot_step A b p = Some (Continue A' b')"
        and eff: "step_effect A b p r A' b'"
        and row: "\<forall>c<N. A' ! p ! c = A ! r ! c" "b' ! p = b ! r"
      by blast
    have "A' ! r ! c = A ! p ! c" if "c < p" for c
    proof -
      have "c < N" using that assms(3) by simp
      from step_effect_A[OF eff assms(1,3) r(3) r(3) this] that show ?thesis
        by (simp add: Let_def)
    qed
    with c row have "\<exists>A' b'. pivot_step A b p = Some (Continue A' b')
                \<and> (\<forall>c<N. A' ! p ! c = A ! r ! c) \<and> b' ! p = b ! r
                \<and> (\<forall>c<p. A' ! r ! c = A ! p ! c)"
      by blast
    with False r sw ps show ?thesis by (intro exI[of _ r]) simp
  qed
qed

theorem pivot_step_exchanges_whole_rows_witness:
  "wf_matrix example_A1 \<and> wf_vector example_b1 \<and> 1 < N
   \<and> find_max_row example_A1 1 (1 + 1) 1 = Some 2
   \<and> \<not> dless (dabs (example_A1 ! 2 ! 1)) threshold
   \<and> swap_rows example_A1 example_b1 1 2 =
       Some (example_A1[1 := example_A1 ! 2, 2 := example_A1 ! 1],
             example_b1[1 := example_b1 ! 2, 2 := example_b1 ! 1])
   \<and> pivot_step example_A1 example_b1 1 = Some (Continue example_U example_c)
   \<and> example_U ! 1 ! 2 = example_A1 ! 2 ! 2 \<and> example_c ! 1 = example_b1 ! 2
   \<and> example_U ! 2 ! 0 = example_A1 ! 1 ! 0"
proof -
  have n: "1 < N" "2 < N" by (simp_all add: N_def)
  have pass: "\<not> dless (dabs (example_A1 ! 2 ! 1)) threshold"
    by (simp add: example_A1_def threshold_def)
  from pivot_step_exchanges_whole_rows [OF wf_examples2(1,2) n(1)] example_scan_1 example_step_1 pass
  have "swap_rows example_A1 example_b1 1 2 =
       Some (example_A1[1 := example_A1 ! 2, 2 := example_A1 ! 1],
             example_b1[1 := example_b1 ! 2, 2 := example_b1 ! 1])"
    and "\<forall>c<N. example_U ! 1 ! c = example_A1 ! 2 ! c"
    and "example_c ! 1 = example_b1 ! 2"
    and "\<forall>c<1. example_U ! 2 ! c = example_A1 ! 1 ! c"
    by (auto split: if_splits)
  then have "swap_rows example_A1 example_b1 1 2 =
       Some (example_A1[1 := example_A1 ! 2, 2 := example_A1 ! 1],
             example_b1[1 := example_b1 ! 2, 2 := example_b1 ! 1])"
    and "example_U ! 1 ! 2 = example_A1 ! 2 ! 2" and "example_c ! 1 = example_b1 ! 2"
    and "example_U ! 2 ! 0 = example_A1 ! 1 ! 0"
    using n by simp_all
  with wf_examples2(1,2) n(1) example_scan_1 example_step_1 pass show ?thesis by blast
qed

subsection \<open>The solver as a whole\<close>

text \<open>
  C2. On arrays of the right shape the solver ends without a fault, with the boolean it
  returns and the final arrays as its only result. The boolean is \<open>false\<close> exactly when
  the loop of line 23 reaches some pivot column \<open>p\<close> at which the entry selected by the
  scan (row \<open>m\<close>, column \<open>p\<close>) has absolute value below the threshold \<open>1e-10\<close>; otherwise
  it is \<open>true\<close>. Where the loop reaches such a column, the arrays returned are those of
  the top of that iteration: the function returned at once, before any exchange or
  elimination of that step.
\<close>

theorem solveMatrix_false_iff_small_pivot:
  assumes "wf_matrix A" and "wf_vector b"
  shows "\<exists>r A' b'. solveMatrix A b = Some (r, A', b')
     \<and> (\<not> r \<longleftrightarrow> (\<exists>p<N. \<exists>Ap bp m. forward_elimination A b p = Some (Continue Ap bp)
            \<and> find_max_row Ap p (p + 1) p = Some m \<and> dless (dabs (Ap ! m ! p)) threshold))
     \<and> (\<forall>p<N. \<forall>Ap bp m. forward_elimination A b p = Some (Continue Ap bp)
            \<and> find_max_row Ap p (p + 1) p = Some m \<and> dless (dabs (Ap ! m ! p)) threshold
          \<longrightarrow> A' = Ap \<and> b' = bp)"
proof -
  from forward_elimination_total[OF assms le_refl] obtain A1 b1
    where s: "forward_elimination A b N = Some (Returned_false A1 b1)
        \<or> forward_elimination A b N = Some (Continue A1 b1)"
    by blast
  from s show ?thesis
  proof
    assume r: "forward_elimination A b N = Some (Returned_false A1 b1)"
    then have "solveMatrix A b = Some (False, A1, b1)" by (simp add: solveMatrix_def)
    moreover from forward_elimination_Returned_false_origin[OF assms le_refl r]
    have "\<exists>p<N. \<exists>Ap bp m. forward_elimination A b p = Some (Continue Ap bp)
            \<and> find_max_row Ap p (p + 1) p = Some m \<and> dless (dabs (Ap ! m ! p)) threshold"
      by blast
    moreover have "A1 = Ap \<and> b1 = bp"
      if "p < N" "forward_elimination A b p = Some (Continue Ap bp)"
        "find_max_row Ap p (p + 1) p = Some m" "dless (dabs (Ap ! m ! p)) threshold" for p Ap bp m
      using small_pivot_returns[OF assms that] r by simp
    ultimately show ?thesis by blast
  next
    assume c: "forward_elimination A b N = Some (Continue A1 b1)"
    from reaches_back_substitution[OF assms c] obtain x where "back_substitution A1 b1 N = Some x"
      by blast
    with c have "solveMatrix A b = Some (True, A1, x)" by (simp add: solveMatrix_def)
    moreover have False
      if "p < N" "forward_elimination A b p = Some (Continue Ap bp)"
        "find_max_row Ap p (p + 1) p = Some m" "dless (dabs (Ap ! m ! p)) threshold" for p Ap bp m
      using small_pivot_returns[OF assms that] c by simp
    ultimately show ?thesis by blast
  qed
qed

theorem solveMatrix_false_iff_small_pivot_witness:
  "wf_matrix example_Z \<and> wf_vector example_b
   \<and> solveMatrix example_Z example_b = Some (False, example_V, example_c)
   \<and> (\<exists>p<N. \<exists>Ap bp m. forward_elimination example_Z example_b p = Some (Continue Ap bp)
          \<and> find_max_row Ap p (p + 1) p = Some m \<and> dless (dabs (Ap ! m ! p)) threshold)"
proof -
  from solveMatrix_false_iff_small_pivot [OF wf_examples(3,2)] example_Z_run
  have "\<exists>p<N. \<exists>Ap bp m. forward_elimination example_Z example_b p = Some (Continue Ap bp)
          \<and> find_max_row Ap p (p + 1) p = Some m \<and> dless (dabs (Ap ! m ! p)) threshold"
    by auto
  with wf_examples(3,2) example_Z_run show ?thesis by blast
qed

text \<open>
  C1. The run of the solver on \<open>wrong_A\<close>, \<open>wrong_b\<close>, arrays of finite doubles whose
  system has the solution \<open>(2, -2^-1023, 1, ..., 1)\<close>. Step 0 subtracts row 0 from row
  1; the entry \<open>-2^1023 - 2^1023\<close> of column 1 overflows to \<open>-inf\<close>, which passes the
  test of line 33, and back substitution divides by it. The solver returns \<open>true\<close>, by
  line 19 of the source the sign that a unique solution was found, and leaves the
  finite vector \<open>(1, 0, 1, ..., 1)\<close>, on which row 1 of the original system has the
  value 1 where the original \<open>b\<close> has 3.
\<close>

theorem solveMatrix_true_without_solution:
  "wf_matrix wrong_A \<and> wf_vector wrong_b
   \<and> all_finite wrong_A \<and> list_all finite_double wrong_b
   \<and> solveMatrix wrong_A wrong_b = Some (True, wrong_U, wrong_x)
   \<and> list_all finite_double wrong_x
   \<and> row_value wrong_A wrong_x 1 = 1 \<and> wrong_b ! 1 = Finite 3"
  using wrong_run wrong_finite wrong_row wf_examples2(3,4) by simp

text \<open>
  C5. When the solver returns \<open>true\<close>, every entry of the final \<open>A\<close> below the diagonal
  (row \<open>i\<close>, column \<open>p\<close>, \<open>p < i\<close>) is the number \<open>0\<close>. The proof rests on the assignment
  of line 55 alone (\<open>pivot_step_triangular\<close>): of what line 53 computes it uses nothing,
  since the loop of line 52 starts right of column \<open>p\<close>.
\<close>

theorem success_leaves_upper_triangular:
  assumes "wf_matrix A" and "wf_vector b" and "solveMatrix A b = Some (True, U, x)"
  shows "\<forall>p<N. \<forall>i<N. p < i \<longrightarrow> U ! i ! p = Finite 0"
proof -
  from solveMatrix_True[OF assms(3)] obtain c
    where c: "forward_elimination A b N = Some (Continue U c)"
    by blast
  from forward_elimination_invariant[OF assms(1,2) le_refl c] show ?thesis by blast
qed

theorem success_leaves_upper_triangular_witness:
  "wf_matrix example_A \<and> wf_vector example_b
   \<and> solveMatrix example_A example_b = Some (True, example_U, example_x)
   \<and> 1 < N \<and> 2 < N \<and> (1::nat) < 2 \<and> example_U ! 2 ! 1 = Finite 0"
proof -
  have n: "1 < N" "2 < N" by (simp_all add: N_def)
  from success_leaves_upper_triangular [OF wf_examples(1,2) example_run] n
  have "example_U ! 2 ! 1 = Finite 0" by simp
  with wf_examples(1,2) example_run n show ?thesis by simp
qed

text \<open>
  C7. On the identity matrix and any vector \<open>v\<close> of \<open>N\<close> numbers (finite doubles) the
  solver returns \<open>true\<close> and leaves \<open>b\<close> equal to \<open>v\<close>, entry for entry and not only
  within a tolerance (and \<open>A\<close> equal to the identity).
\<close>

theorem identity_is_solved_by_the_input:
  assumes "wf_vector v" and "list_all finite_double v"
  shows "solveMatrix identity v = Some (True, identity, v)"
  using assms by (rule solveMatrix_identity)

theorem identity_is_solved_by_the_input_witness:
  "wf_vector example_x \<and> list_all finite_double example_x
   \<and> solveMatrix identity example_x = Some (True, identity, example_x)"
  using identity_is_solved_by_the_input [OF wf_examples(6) example_finite(2)]
    wf_examples(6) example_finite(2)
  by simp

text \<open>
  C9. On arrays of the right shape no run of the solver ends in a fault: it returns its
  boolean, \<open>false\<close> in the case of a pivot below the threshold, having read and written
  \<open>A\<close> and \<open>b\<close> at indices below \<open>N\<close> only (an access outside them, like a division by
  zero, would make the run \<open>None\<close>), and it leaves the two arrays with their shape.
\<close>

theorem solveMatrix_no_fault:
  assumes "wf_matrix A" and "wf_vector b"
  shows "\<exists>r A' b'. solveMatrix A b = Some (r, A', b') \<and> wf_matrix A' \<and> wf_vector b'"
proof -
  from forward_elimination_total[OF assms le_refl] obtain A1 b1
    where wf1: "wf_matrix A1" "wf_vector b1"
      and s: "forward_elimination A b N = Some (Returned_false A1 b1)
        \<or> forward_elimination A b N = Some (Continue A1 b1)"
    by blast
  from s show ?thesis
  proof
    assume "forward_elimination A b N = Some (Returned_false A1 b1)"
    then have "solveMatrix A b = Some (False, A1, b1)" by (simp add: solveMatrix_def)
    with wf1 show ?thesis by blast
  next
    assume c: "forward_elimination A b N = Some (Continue A1 b1)"
    from reaches_back_substitution[OF assms c] obtain x
      where "back_substitution A1 b1 N = Some x" "wf_vector x"
      by blast
    with c have "solveMatrix A b = Some (True, A1, x)" "wf_vector x" by (simp_all add: solveMatrix_def)
    with wf1 show ?thesis by blast
  qed
qed

theorem solveMatrix_no_fault_witness:
  "wf_matrix example_Z \<and> wf_vector example_b
   \<and> solveMatrix example_Z example_b = Some (False, example_V, example_c)
   \<and> wf_matrix example_V \<and> wf_vector example_c"
  using solveMatrix_no_fault [OF wf_examples(3,2)] wf_examples(3,2) example_Z_run
  by auto







end
